theory Spec2Isabelle
  imports Main "HOL-Library.Word"
begin

unbundle bit_operations_syntax

section \<open>Media context: the association matrix of mpf_context.c\<close>

subsection \<open>Data model\<close>

text \<open>
  Pointers are addresses. A termination pointer handed to the context is never NULL (every
  operation dereferences it at once), so a header slot holds \<open>None\<close> for NULL and
  \<open>Some t\<close> for the address \<open>t\<close>.
\<close>

type_synonym termination_ptr = nat
type_synonym context_ptr = nat

text \<open>
  Modelled from the spec: the two bits of the stream mode mask (the header that declares
  \<open>STREAM_MODE_SEND\<close> and \<open>STREAM_MODE_RECEIVE\<close> is not among the sources); the mask
  holds SEND, RECEIVE or both.
\<close>

definition STREAM_MODE_SEND :: "32 word" where
  "STREAM_MODE_SEND = 1"

definition STREAM_MODE_RECEIVE :: "32 word" where
  "STREAM_MODE_RECEIVE = 2"

text \<open>
  Modelled from the spec: a codec descriptor names the codec, its sampling rate and its
  channel count; a codec carries a descriptor and an optional table of the two
  transcoding hooks, each of which may be missing.
\<close>

record mpf_codec_descriptor =
  codec_name :: string
  sampling_rate :: nat
  channel_count :: nat

record mpf_codec_vtable =
  decode :: bool
  encode :: bool

record mpf_codec =
  codec_descriptor :: mpf_codec_descriptor
  vtable :: "mpf_codec_vtable option"

record mpf_audio_stream =
  mode :: "32 word"
  rx_codec :: "mpf_codec option"
  tx_codec :: "mpf_codec option"

record mpf_termination =
  slot :: nat
  audio_stream :: "mpf_audio_stream option"

text \<open>
  \<open>header_item_t\<close>: the two counters are C \<open>char\<close>s, eight bits wide, and
  \<open>++\<close>/\<open>--\<close> wrap.
\<close>

record header_item =
  termination_p :: "termination_ptr option"
  tx_count :: "8 word"
  rx_count :: "8 word"

text \<open>
  The ends of a bridge: a stream as it is, or wrapped in a decoder or an encoder.
\<close>

datatype mpf_stream_end =
  Plain mpf_audio_stream
  | Decoder mpf_audio_stream
  | Encoder mpf_audio_stream

datatype mpf_object =
  Null_bridge mpf_audio_stream mpf_audio_stream
  | Bridge mpf_stream_end mpf_stream_end

text \<open>
  \<open>mpf_context_t\<close>. The field \<open>link\<close> is the ring entry embedded in the context; it
  stands for the context in the factory's ring. \<open>matrix_item_t.on\<close> is only ever
  written 0 or 1 and is a truth value here. \<open>capacity\<close> and \<open>count\<close> are
  \<open>apr_size_t\<close>.
\<close>

record mpf_context =
  link :: context_ptr
  capacity :: nat
  count :: nat
  header :: "header_item list"
  matrix :: "bool list list"
  mpf_objects :: "mpf_object list"

text \<open>
  What the operations on one context read and write: the context, the ring of its factory
  (the entries linked into it, first to last), the terminations on the heap, and the
  objects whose destroy hook has been called, in call order.
\<close>

record mpf_state =
  ctx :: mpf_context
  ring :: "context_ptr list"
  terminations :: "termination_ptr \<Rightarrow> mpf_termination"
  destroyed :: "mpf_object list"

subsection \<open>apr_size_t arithmetic\<close>

definition apr_size_max :: nat where
  "apr_size_max = 2 ^ 64 - 1"

definition size_inc :: "nat \<Rightarrow> nat" where
  "size_inc n = (n + 1) mod 2 ^ 64"

definition size_dec :: "nat \<Rightarrow> nat" where
  "size_dec n = (n + (2 ^ 64 - 1)) mod 2 ^ 64"

subsection \<open>Creation\<close>

definition mpf_context_create :: "context_ptr \<Rightarrow> nat \<Rightarrow> mpf_context" where
  "mpf_context_create lnk max_termination_count =
     \<lparr> link = lnk,
       capacity = max_termination_count,
       count = 0,
       header = replicate max_termination_count
                  \<lparr> termination_p = None, tx_count = 0, rx_count = 0 \<rparr>,
       matrix = replicate max_termination_count (replicate max_termination_count False),
       mpf_objects = [] \<rparr>"

subsection \<open>Setting and clearing one matrix item\<close>

text \<open>
  The three statements \<open>item->on = 1; header_item1->tx_count++; header_item2->rx_count++\<close>
  for the item in row \<open>i\<close>, column \<open>j\<close>, and their mirror image with 0 and \<open>--\<close>. The
  source writes them out at every place; the clearing ones always stand under
  \<open>if(item->on)\<close>.
\<close>

definition item_set :: "nat \<Rightarrow> nat \<Rightarrow> mpf_context \<Rightarrow> mpf_context" where
  "item_set i j c =
     (let m = (matrix c)[i := (matrix c ! i)[j := True]];
          h1 = (header c)[i := (header c ! i)\<lparr> tx_count := tx_count (header c ! i) + 1 \<rparr>];
          h2 = h1[j := (h1 ! j)\<lparr> rx_count := rx_count (h1 ! j) + 1 \<rparr>]
      in c\<lparr> matrix := m, header := h2 \<rparr>)"

definition item_clear :: "nat \<Rightarrow> nat \<Rightarrow> mpf_context \<Rightarrow> mpf_context" where
  "item_clear i j c =
     (if matrix c ! i ! j then
        (let m = (matrix c)[i := (matrix c ! i)[j := False]];
             h1 = (header c)[i := (header c ! i)\<lparr> tx_count := tx_count (header c ! i) - 1 \<rparr>];
             h2 = h1[j := (h1 ! j)\<lparr> rx_count := rx_count (h1 ! j) - 1 \<rparr>]
         in c\<lparr> matrix := m, header := h2 \<rparr>)
      else c)"

lemma capacity_item_set [simp]: "capacity (item_set i j c) = capacity c"
  by (simp add: item_set_def Let_def)

lemma capacity_item_clear [simp]: "capacity (item_clear i j c) = capacity c"
  by (simp add: item_clear_def Let_def)

lemma count_item_clear [simp]: "count (item_clear i j c) = count c"
  by (simp add: item_clear_def Let_def)

subsection \<open>Operations\<close>

definition stream_mode_compatibility_check ::
  "mpf_termination \<Rightarrow> mpf_termination \<Rightarrow> bool" where
  "stream_mode_compatibility_check termination1 termination2 =
     (case audio_stream termination1 of
        None \<Rightarrow> False
      | Some source \<Rightarrow>
          (mode source AND STREAM_MODE_RECEIVE) = STREAM_MODE_RECEIVE \<and>
          (case audio_stream termination2 of
             None \<Rightarrow> False
           | Some sink \<Rightarrow> (mode sink AND STREAM_MODE_SEND) = STREAM_MODE_SEND))"

text \<open>
  \<open>mpf_context_termination_add\<close>: the loop from slot \<open>i\<close> on. The first free slot takes
  the termination; the context enters the ring when it was empty.
\<close>

function termination_add_from ::
  "nat \<Rightarrow> termination_ptr \<Rightarrow> mpf_state \<Rightarrow> bool \<times> mpf_state" where
  "termination_add_from i t s =
     (let c = ctx s in
      if i < capacity c then
        (if termination_p (header c ! i) \<noteq> None then termination_add_from (i + 1) t s
         else
           (let r = (if count c = 0 then ring s @ [link c] else ring s);
                h = (header c)[i := \<lparr> termination_p = Some t, tx_count = 0, rx_count = 0 \<rparr>];
                ts = (terminations s)(t := (terminations s t)\<lparr> slot := i \<rparr>)
            in (True, s\<lparr> ctx := c\<lparr> header := h, count := size_inc (count c) \<rparr>,
                         ring := r, terminations := ts \<rparr>)))
      else (False, s))"
  by pat_completeness auto
termination
  by (relation "measure (\<lambda>(i, t, s). capacity (ctx s) - i)") auto

declare termination_add_from.simps [simp del]

definition mpf_context_termination_add ::
  "termination_ptr \<Rightarrow> mpf_state \<Rightarrow> bool \<times> mpf_state" where
  "mpf_context_termination_add t s = termination_add_from 0 t s"

text \<open>
  The loop of \<open>mpf_context_termination_subtract\<close>: \<open>j\<close> walks the slots, \<open>k\<close> counts the
  occupied ones met so far, and the walk ends when \<open>k\<close> reaches \<open>count\<close>.
\<close>

function subtract_loop :: "nat \<Rightarrow> nat \<Rightarrow> nat \<Rightarrow> mpf_context \<Rightarrow> mpf_context" where
  "subtract_loop i j k c =
     (if j < capacity c \<and> k < count c then
        (if termination_p (header c ! j) = None then subtract_loop i (j + 1) k c
         else subtract_loop i (j + 1) (k + 1) (item_clear j i (item_clear i j c)))
      else c)"
  by pat_completeness auto
termination
  by (relation "measure (\<lambda>(i, j, k, c). capacity c - j)") auto

declare subtract_loop.simps [simp del]

definition mpf_context_termination_subtract ::
  "termination_ptr \<Rightarrow> mpf_state \<Rightarrow> bool \<times> mpf_state" where
  "mpf_context_termination_subtract t s =
     (let c = ctx s; i = slot (terminations s t) in
      if i \<ge> capacity c then (False, s)
      else if termination_p (header c ! i) \<noteq> Some t then (False, s)
      else
        (let c1 = subtract_loop i 0 0 c;
             c2 = c1\<lparr> header := (header c1)[i := (header c1 ! i)\<lparr> termination_p := None \<rparr>] \<rparr>;
             ts = (terminations s)(t := (terminations s t)\<lparr> slot := apr_size_max \<rparr>);
             c3 = c2\<lparr> count := size_dec (count c2) \<rparr>;
             r = (if count c3 = 0 then removeAll (link c3) (ring s) else ring s)
         in (True, s\<lparr> ctx := c3, ring := r, terminations := ts \<rparr>)))"

definition mpf_context_association_add ::
  "termination_ptr \<Rightarrow> termination_ptr \<Rightarrow> mpf_state \<Rightarrow> bool \<times> mpf_state" where
  "mpf_context_association_add t1 t2 s =
     (let c = ctx s; i = slot (terminations s t1); j = slot (terminations s t2) in
      if i \<ge> capacity c \<or> j \<ge> capacity c then (False, s)
      else if termination_p (header c ! i) \<noteq> Some t1 \<or> termination_p (header c ! j) \<noteq> Some t2
      then (False, s)
      else
        (let c1 = (if \<not> matrix c ! i ! j \<and>
                      stream_mode_compatibility_check (terminations s t1) (terminations s t2)
                   then item_set i j c else c);
             c2 = (if \<not> matrix c1 ! j ! i \<and>
                      stream_mode_compatibility_check (terminations s t2) (terminations s t1)
                   then item_set j i c1 else c1)
         in (True, s\<lparr> ctx := c2 \<rparr>)))"

definition mpf_context_association_remove ::
  "termination_ptr \<Rightarrow> termination_ptr \<Rightarrow> mpf_state \<Rightarrow> bool \<times> mpf_state" where
  "mpf_context_association_remove t1 t2 s =
     (let c = ctx s; i = slot (terminations s t1); j = slot (terminations s t2) in
      if i \<ge> capacity c \<or> j \<ge> capacity c then (False, s)
      else if termination_p (header c ! i) \<noteq> Some t1 \<or> termination_p (header c ! j) \<noteq> Some t2
      then (False, s)
      else (True, s\<lparr> ctx := item_clear j i (item_clear i j c) \<rparr>))"

definition mpf_context_topology_destroy :: "mpf_state \<Rightarrow> mpf_state" where
  "mpf_context_topology_destroy s =
     (if mpf_objects (ctx s) \<noteq> [] then
        s\<lparr> destroyed := destroyed s @ mpf_objects (ctx s),
           ctx := (ctx s)\<lparr> mpf_objects := [] \<rparr> \<rparr>
      else s)"

text \<open>
  The loops of \<open>mpf_context_associations_reset\<close>: the inner one runs \<open>j\<close> from \<open>i\<close> to
  the capacity, the outer one skips free slots and slots whose two counters are zero.
\<close>

function reset_inner :: "nat \<Rightarrow> nat \<Rightarrow> mpf_context \<Rightarrow> mpf_context" where
  "reset_inner i j c =
     (if j < capacity c then
        (if termination_p (header c ! j) = None then reset_inner i (j + 1) c
         else reset_inner i (j + 1) (item_clear j i (item_clear i j c)))
      else c)"
  by pat_completeness auto
termination
  by (relation "measure (\<lambda>(i, j, c). capacity c - j)") auto

declare reset_inner.simps [simp del]

lemma capacity_reset_inner [simp]: "capacity (reset_inner i j c) = capacity c"
  by (induction i j c rule: reset_inner.induct) (subst reset_inner.simps, simp)

lemma count_reset_inner [simp]: "count (reset_inner i j c) = count c"
  by (induction i j c rule: reset_inner.induct) (subst reset_inner.simps, simp)

function reset_outer :: "nat \<Rightarrow> nat \<Rightarrow> mpf_context \<Rightarrow> mpf_context" where
  "reset_outer i k c =
     (if i < capacity c \<and> k < count c then
        (if termination_p (header c ! i) = None then reset_outer (i + 1) k c
         else if tx_count (header c ! i) = 0 \<and> rx_count (header c ! i) = 0
         then reset_outer (i + 1) (k + 1) c
         else reset_outer (i + 1) (k + 1) (reset_inner i i c))
      else c)"
  by pat_completeness auto
termination
  by (relation "measure (\<lambda>(i, k, c). capacity c - i)") auto

declare reset_outer.simps [simp del]

definition mpf_context_associations_reset :: "mpf_state \<Rightarrow> bool \<times> mpf_state" where
  "mpf_context_associations_reset s =
     (let s1 = mpf_context_topology_destroy s
      in (True, s1\<lparr> ctx := reset_outer 0 0 (ctx s1) \<rparr>))"

subsection \<open>Sequences of operations\<close>

datatype mpf_op =
  Add_termination termination_ptr
  | Subtract_termination termination_ptr
  | Add_association termination_ptr termination_ptr
  | Remove_association termination_ptr termination_ptr
  | Reset_associations

fun mpf_apply :: "mpf_op \<Rightarrow> mpf_state \<Rightarrow> bool \<times> mpf_state" where
  "mpf_apply (Add_termination t) s = mpf_context_termination_add t s"
| "mpf_apply (Subtract_termination t) s = mpf_context_termination_subtract t s"
| "mpf_apply (Add_association t1 t2) s = mpf_context_association_add t1 t2 s"
| "mpf_apply (Remove_association t1 t2) s = mpf_context_association_remove t1 t2 s"
| "mpf_apply Reset_associations s = mpf_context_associations_reset s"

fun mpf_run :: "mpf_op list \<Rightarrow> mpf_state \<Rightarrow> mpf_state" where
  "mpf_run [] s = s"
| "mpf_run (x # xs) s = mpf_run xs (snd (mpf_apply x s))"

text \<open>
  The state right after \<open>mpf_context_create\<close>: the new context is in no ring yet, and
  nothing is known of the factory's other contexts or of the terminations on the heap.
\<close>

definition mpf_fresh ::
  "context_ptr \<Rightarrow> nat \<Rightarrow> context_ptr list \<Rightarrow> (termination_ptr \<Rightarrow> mpf_termination) \<Rightarrow> mpf_state" where
  "mpf_fresh lnk n r ts =
     \<lparr> ctx = mpf_context_create lnk n, ring = r, terminations = ts, destroyed = [] \<rparr>"

subsection \<open>Invariants of the data model\<close>

definition row_bits :: "mpf_context \<Rightarrow> nat \<Rightarrow> nat" where
  "row_bits c i = length (filter (\<lambda>j. matrix c ! i ! j) [0..<capacity c])"

definition col_bits :: "mpf_context \<Rightarrow> nat \<Rightarrow> nat" where
  "col_bits c i = length (filter (\<lambda>j. matrix c ! j ! i) [0..<capacity c])"

definition occupied :: "mpf_context \<Rightarrow> nat \<Rightarrow> bool" where
  "occupied c i = (termination_p (header c ! i) \<noteq> None)"

definition occupied_upto :: "mpf_context \<Rightarrow> nat \<Rightarrow> nat" where
  "occupied_upto c n = length (filter (occupied c) [0..<n])"

text \<open>The arrays have the lengths \<open>mpf_context_create\<close> allocates.\<close>

definition shape_ok :: "mpf_context \<Rightarrow> bool" where
  "shape_ok c =
     (capacity c \<le> apr_size_max \<and> length (header c) = capacity c \<and>
      length (matrix c) = capacity c \<and>
      (\<forall>i < capacity c. length (matrix c ! i) = capacity c))"

definition counts_ok :: "mpf_context \<Rightarrow> bool" where
  "counts_ok c =
     (\<forall>i < capacity c.
        unat (tx_count (header c ! i)) = row_bits c i \<and>
        unat (rx_count (header c ! i)) = col_bits c i)"

definition count_ok :: "mpf_context \<Rightarrow> bool" where
  "count_ok c = (count c = occupied_upto c (capacity c))"

definition ring_ok :: "mpf_state \<Rightarrow> bool" where
  "ring_ok s = ((link (ctx s) \<in> set (ring s)) = (0 < count (ctx s)))"

text \<open>Only occupied slots are associated.\<close>

definition assoc_ok :: "mpf_context \<Rightarrow> bool" where
  "assoc_ok c =
     (\<forall>i < capacity c. \<forall>j < capacity c.
        matrix c ! i ! j \<longrightarrow> occupied c i \<and> occupied c j)"

definition mpf_inv :: "mpf_state \<Rightarrow> bool" where
  "mpf_inv s =
     (shape_ok (ctx s) \<and> counts_ok (ctx s) \<and> count_ok (ctx s) \<and> ring_ok s \<and>
      assoc_ok (ctx s))"

section \<open>Media context: the invariants are kept\<close>

subsection \<open>One matrix item\<close>


lemma nth_update_field:
  "(\<And>x. g (f x) = g x) \<Longrightarrow> g (xs[i := f (xs ! i)] ! a) = g (xs ! a)"
  by (cases "i < length xs"; cases "a = i"; simp add: list_update_beyond)

lemma termination_p_tx_update:
  "termination_p (h[i := (h ! i)\<lparr> tx_count := v \<rparr>] ! a) = termination_p (h ! a)"
  by (rule nth_update_field [where f = "\<lambda>x. x\<lparr> tx_count := v \<rparr>"]) simp

lemma termination_p_rx_update:
  "termination_p (h[i := (h ! i)\<lparr> rx_count := v \<rparr>] ! a) = termination_p (h ! a)"
  by (rule nth_update_field [where f = "\<lambda>x. x\<lparr> rx_count := v \<rparr>"]) simp

lemma termination_p_item_clear [simp]:
  "termination_p (header (item_clear i j c) ! a) = termination_p (header c ! a)"
  by (simp add: item_clear_def Let_def termination_p_tx_update termination_p_rx_update)

lemma termination_p_item_set [simp]:
  "termination_p (header (item_set i j c) ! a) = termination_p (header c ! a)"
  by (simp add: item_set_def Let_def termination_p_tx_update termination_p_rx_update)

lemma occupied_item_clear [simp]: "occupied (item_clear i j c) a = occupied c a"
  by (simp add: occupied_def)

lemma occupied_item_set [simp]: "occupied (item_set i j c) a = occupied c a"
  by (simp add: occupied_def)

lemma link_item_clear [simp]: "link (item_clear i j c) = link c"
  by (simp add: item_clear_def Let_def)

lemma objects_item_clear [simp]: "mpf_objects (item_clear i j c) = mpf_objects c"
  by (simp add: item_clear_def Let_def)

lemma link_item_set [simp]: "link (item_set i j c) = link c"
  by (simp add: item_set_def Let_def)

lemma count_item_set [simp]: "count (item_set i j c) = count c"
  by (simp add: item_set_def Let_def)

lemma objects_item_set [simp]: "mpf_objects (item_set i j c) = mpf_objects c"
  by (simp add: item_set_def Let_def)

lemma shape_item_clear [simp]: "shape_ok c \<Longrightarrow> shape_ok (item_clear i j c)"
  by (cases "i < capacity c")
     (auto simp: shape_ok_def item_clear_def Let_def nth_list_update list_update_beyond)

lemma shape_item_set [simp]: "shape_ok c \<Longrightarrow> shape_ok (item_set i j c)"
  by (cases "i < capacity c")
     (auto simp: shape_ok_def item_set_def Let_def nth_list_update list_update_beyond)

lemma matrix_item_clear:
  "shape_ok c \<Longrightarrow> i < capacity c \<Longrightarrow> j < capacity c \<Longrightarrow> a < capacity c \<Longrightarrow> b < capacity c \<Longrightarrow>
   matrix (item_clear i j c) ! a ! b = (matrix c ! a ! b \<and> \<not> (a = i \<and> b = j))"
  by (auto simp: shape_ok_def item_clear_def Let_def nth_list_update)

lemma matrix_item_set:
  "shape_ok c \<Longrightarrow> i < capacity c \<Longrightarrow> j < capacity c \<Longrightarrow> a < capacity c \<Longrightarrow> b < capacity c \<Longrightarrow>
   matrix (item_set i j c) ! a ! b = (matrix c ! a ! b \<or> (a = i \<and> b = j))"
  by (auto simp: shape_ok_def item_set_def Let_def nth_list_update)

lemma tx_item_clear:
  "shape_ok c \<Longrightarrow> i < capacity c \<Longrightarrow> j < capacity c \<Longrightarrow> a < capacity c \<Longrightarrow>
   tx_count (header (item_clear i j c) ! a) =
     (if a = i \<and> matrix c ! i ! j then tx_count (header c ! a) - 1 else tx_count (header c ! a))"
  by (auto simp: shape_ok_def item_clear_def Let_def nth_list_update)

lemma rx_item_clear:
  "shape_ok c \<Longrightarrow> i < capacity c \<Longrightarrow> j < capacity c \<Longrightarrow> a < capacity c \<Longrightarrow>
   rx_count (header (item_clear i j c) ! a) =
     (if a = j \<and> matrix c ! i ! j then rx_count (header c ! a) - 1 else rx_count (header c ! a))"
  by (auto simp: shape_ok_def item_clear_def Let_def nth_list_update)

lemma tx_item_set:
  "shape_ok c \<Longrightarrow> i < capacity c \<Longrightarrow> j < capacity c \<Longrightarrow> a < capacity c \<Longrightarrow>
   tx_count (header (item_set i j c) ! a) =
     (if a = i then tx_count (header c ! a) + 1 else tx_count (header c ! a))"
  by (auto simp: shape_ok_def item_set_def Let_def nth_list_update)

lemma rx_item_set:
  "shape_ok c \<Longrightarrow> i < capacity c \<Longrightarrow> j < capacity c \<Longrightarrow> a < capacity c \<Longrightarrow>
   rx_count (header (item_set i j c) ! a) =
     (if a = j then rx_count (header c ! a) + 1 else rx_count (header c ! a))"
  by (auto simp: shape_ok_def item_set_def Let_def nth_list_update)

lemma filter_upt_same:
  "(\<And>j. j < n \<Longrightarrow> Q j = P j) \<Longrightarrow> length (filter Q [0..<n]) = length (filter P [0..<n])"
  by (rule arg_cong [where f = length], rule filter_cong) auto

lemma filter_upt_off:
  "k < n \<Longrightarrow> P k \<Longrightarrow> \<not> Q k \<Longrightarrow> (\<And>j. j < n \<Longrightarrow> j \<noteq> k \<Longrightarrow> Q j = P j) \<Longrightarrow>
   length (filter P [0..<n]) = Suc (length (filter Q [0..<n]))"
proof (induction n)
  case 0
  then show ?case by simp
next
  case (Suc n)
  show ?case
  proof (cases "k = n")
    case True
    have "length (filter Q [0..<n]) = length (filter P [0..<n])"
      by (rule filter_upt_same) (use Suc.prems True in auto)
    with True Suc.prems show ?thesis by simp
  next
    case False
    with Suc.prems have "k < n" by simp
    then have "length (filter P [0..<n]) = Suc (length (filter Q [0..<n]))"
      using Suc.prems by (intro Suc.IH) auto
    moreover have "Q n = P n" using Suc.prems False by auto
    ultimately show ?thesis by simp
  qed
qed

lemma filter_upt_zero:
  "length (filter P [0..<n]) = 0 \<longleftrightarrow> (\<forall>j<n. \<not> P j)"
  by (auto simp: filter_empty_conv)

lemma row_bits_clear_on:
  assumes "shape_ok c" "i < capacity c" "j < capacity c" "matrix c ! i ! j"
  shows "row_bits c i = Suc (row_bits (item_clear i j c) i)"
  unfolding row_bits_def capacity_item_clear
  by (rule filter_upt_off [where k = j]) (use assms in \<open>auto simp: matrix_item_clear\<close>)

lemma row_bits_clear_other:
  assumes "shape_ok c" "i < capacity c" "j < capacity c" "a < capacity c"
    "a \<noteq> i \<or> \<not> matrix c ! i ! j"
  shows "row_bits (item_clear i j c) a = row_bits c a"
  unfolding row_bits_def capacity_item_clear
  by (rule filter_upt_same) (use assms in \<open>auto simp: matrix_item_clear\<close>)

lemma col_bits_clear_on:
  assumes "shape_ok c" "i < capacity c" "j < capacity c" "matrix c ! i ! j"
  shows "col_bits c j = Suc (col_bits (item_clear i j c) j)"
  unfolding col_bits_def capacity_item_clear
  by (rule filter_upt_off [where k = i]) (use assms in \<open>auto simp: matrix_item_clear\<close>)

lemma col_bits_clear_other:
  assumes "shape_ok c" "i < capacity c" "j < capacity c" "a < capacity c"
    "a \<noteq> j \<or> \<not> matrix c ! i ! j"
  shows "col_bits (item_clear i j c) a = col_bits c a"
  unfolding col_bits_def capacity_item_clear
  by (rule filter_upt_same) (use assms in \<open>auto simp: matrix_item_clear\<close>)

lemma row_bits_set_on:
  assumes "shape_ok c" "i < capacity c" "j < capacity c" "\<not> matrix c ! i ! j"
  shows "row_bits (item_set i j c) i = Suc (row_bits c i)"
  unfolding row_bits_def capacity_item_set
  by (rule filter_upt_off [where k = j]) (use assms in \<open>auto simp: matrix_item_set\<close>)

lemma row_bits_set_other:
  assumes "shape_ok c" "i < capacity c" "j < capacity c" "a < capacity c" "a \<noteq> i"
  shows "row_bits (item_set i j c) a = row_bits c a"
  unfolding row_bits_def capacity_item_set
  by (rule filter_upt_same) (use assms in \<open>auto simp: matrix_item_set\<close>)

lemma col_bits_set_on:
  assumes "shape_ok c" "i < capacity c" "j < capacity c" "\<not> matrix c ! i ! j"
  shows "col_bits (item_set i j c) j = Suc (col_bits c j)"
  unfolding col_bits_def capacity_item_set
  by (rule filter_upt_off [where k = i]) (use assms in \<open>auto simp: matrix_item_set\<close>)

lemma col_bits_set_other:
  assumes "shape_ok c" "i < capacity c" "j < capacity c" "a < capacity c" "a \<noteq> j"
  shows "col_bits (item_set i j c) a = col_bits c a"
  unfolding col_bits_def capacity_item_set
  by (rule filter_upt_same) (use assms in \<open>auto simp: matrix_item_set\<close>)

lemma row_bits_le: "row_bits c i \<le> capacity c"
  unfolding row_bits_def by (rule order_trans [OF length_filter_le]) simp

lemma col_bits_le: "col_bits c i \<le> capacity c"
  unfolding col_bits_def by (rule order_trans [OF length_filter_le]) simp

lemma unat_dec8: "unat (x :: 8 word) = Suc n \<Longrightarrow> unat (x - 1) = n"
  by (metis Suc_inject Zero_not_Suc unat_0 unat_minus_one Suc_pred' unat_gt_0 diff_Suc_1)

lemma unat_inc8: "unat (x :: 8 word) = n \<Longrightarrow> n < 255 \<Longrightarrow> unat (x + 1) = Suc n"
  by (simp add: unat_word_ariths)

lemma counts_ok_item_clear:
  assumes "shape_ok c" "counts_ok c" "i < capacity c" "j < capacity c"
  shows "counts_ok (item_clear i j c)"
proof (cases "matrix c ! i ! j")
  case False
  then show ?thesis using assms by (simp add: item_clear_def)
next
  case True
  show ?thesis
    unfolding counts_ok_def capacity_item_clear
  proof (intro allI impI conjI)
    fix a assume a: "a < capacity c"
    from assms a have ca: "unat (tx_count (header c ! a)) = row_bits c a"
      "unat (rx_count (header c ! a)) = col_bits c a"
      by (auto simp: counts_ok_def)
    show "unat (tx_count (header (item_clear i j c) ! a)) = row_bits (item_clear i j c) a"
    proof (cases "a = i")
      case True
      with ca row_bits_clear_on [OF assms(1,3,4) \<open>matrix c ! i ! j\<close>] assms a
      show ?thesis by (simp add: tx_item_clear \<open>matrix c ! i ! j\<close> unat_dec8)
    next
      case False
      with ca assms a show ?thesis by (simp add: tx_item_clear row_bits_clear_other)
    qed
    show "unat (rx_count (header (item_clear i j c) ! a)) = col_bits (item_clear i j c) a"
    proof (cases "a = j")
      case True
      with ca col_bits_clear_on [OF assms(1,3,4) \<open>matrix c ! i ! j\<close>] assms a
      show ?thesis by (simp add: rx_item_clear \<open>matrix c ! i ! j\<close> unat_dec8)
    next
      case False
      with ca assms a show ?thesis by (simp add: rx_item_clear col_bits_clear_other)
    qed
  qed
qed

lemma counts_ok_item_set:
  assumes "shape_ok c" "counts_ok c" "i < capacity c" "j < capacity c"
    "\<not> matrix c ! i ! j" "capacity c \<le> 255"
  shows "counts_ok (item_set i j c)"
  unfolding counts_ok_def capacity_item_set
proof (intro allI impI conjI)
  fix a assume a: "a < capacity c"
  from assms a have ca: "unat (tx_count (header c ! a)) = row_bits c a"
    "unat (rx_count (header c ! a)) = col_bits c a"
    by (auto simp: counts_ok_def)
  have r: "row_bits (item_set i j c) i = Suc (row_bits c i)"
    and k: "col_bits (item_set i j c) j = Suc (col_bits c j)"
    using assms by (simp_all add: row_bits_set_on col_bits_set_on)
  have "row_bits (item_set i j c) i \<le> capacity c" "col_bits (item_set i j c) j \<le> capacity c"
    using row_bits_le [of "item_set i j c" i] col_bits_le [of "item_set i j c" j] by simp_all
  with r k assms(6) have lt: "row_bits c i < 255" "col_bits c j < 255" by simp_all
  show "unat (tx_count (header (item_set i j c) ! a)) = row_bits (item_set i j c) a"
  proof (cases "a = i")
    case True
    with ca r lt assms a show ?thesis by (simp add: tx_item_set unat_inc8)
  next
    case False
    with ca assms a show ?thesis by (simp add: tx_item_set row_bits_set_other)
  qed
  show "unat (rx_count (header (item_set i j c) ! a)) = col_bits (item_set i j c) a"
  proof (cases "a = j")
    case True
    with ca k lt assms a show ?thesis by (simp add: rx_item_set unat_inc8)
  next
    case False
    with ca assms a show ?thesis by (simp add: rx_item_set col_bits_set_other)
  qed
qed

lemma mpf_context_eqI:
  assumes "shape_ok c" "shape_ok c'" "capacity c' = capacity c" "link c' = link c"
    "count c' = count c" "mpf_objects c' = mpf_objects c"
    "\<And>a. a < capacity c \<Longrightarrow> termination_p (header c' ! a) = termination_p (header c ! a)"
    "\<And>a. a < capacity c \<Longrightarrow> tx_count (header c' ! a) = tx_count (header c ! a)"
    "\<And>a. a < capacity c \<Longrightarrow> rx_count (header c' ! a) = rx_count (header c ! a)"
    "\<And>a b. a < capacity c \<Longrightarrow> b < capacity c \<Longrightarrow> matrix c' ! a ! b = matrix c ! a ! b"
  shows "c' = c"
proof (rule mpf_context.equality)
  show "header c' = header c"
    using assms by (intro nth_equalityI header_item.equality) (auto simp: shape_ok_def)
  show "matrix c' = matrix c"
  proof (rule nth_equalityI)
    show "length (matrix c') = length (matrix c)" using assms by (simp add: shape_ok_def)
    fix a assume "a < length (matrix c')"
    then have a: "a < capacity c" using assms by (simp add: shape_ok_def)
    show "matrix c' ! a = matrix c ! a"
      using assms a by (intro nth_equalityI) (auto simp: shape_ok_def)
  qed
qed (use assms in auto)

lemma item_clear_off: "\<not> matrix c ! i ! j \<Longrightarrow> item_clear i j c = c"
  by (simp add: item_clear_def)

lemma item_clear_item_set:
  assumes "shape_ok c" "i < capacity c" "j < capacity c" "\<not> matrix c ! i ! j"
  shows "item_clear i j (item_set i j c) = c"
  using assms
  by (intro mpf_context_eqI;
      simp add: matrix_item_clear matrix_item_set tx_item_clear tx_item_set
        rx_item_clear rx_item_set; blast)

lemma item_clear_item_set_other:
  assumes "shape_ok c" "i < capacity c" "j < capacity c" "i \<noteq> j"
  shows "item_clear i j (item_set j i c) = item_set j i (item_clear i j c)"
  using assms
  by (intro mpf_context_eqI;
      simp add: matrix_item_clear matrix_item_set tx_item_clear tx_item_set
        rx_item_clear rx_item_set; blast)

lemma association_add_remove_lemma:
  assumes "shape_ok c" "i < capacity c" "j < capacity c"
    "\<not> matrix c ! i ! j" "\<not> matrix c ! j ! i"
  shows "item_clear j i (item_clear i j
           (let c1 = (if \<not> matrix c ! i ! j \<and> p then item_set i j c else c)
            in if \<not> matrix c1 ! j ! i \<and> q then item_set j i c1 else c1)) = c"
proof (cases "i = j")
  case True
  with assms show ?thesis
    by (simp add: Let_def matrix_item_set item_clear_item_set item_clear_off)
next
  case False
  with assms show ?thesis
    by (simp add: Let_def matrix_item_set matrix_item_clear item_clear_item_set
          item_clear_off item_clear_item_set_other)
qed

lemma occupied_upto_le: "occupied_upto c n \<le> n"
  unfolding occupied_upto_def by (rule order_trans [OF length_filter_le]) simp

lemma size_inc_Suc: "n < apr_size_max \<Longrightarrow> size_inc n = Suc n"
  by (simp add: size_inc_def apr_size_max_def)

lemma size_dec_pred: "0 < n \<Longrightarrow> n \<le> apr_size_max \<Longrightarrow> size_dec n = n - 1"
proof -
  assume n: "0 < n" "n \<le> apr_size_max"
  then have "n + (2 ^ 64 - 1) = (n - 1) + 1 * 2 ^ 64" by simp
  then have "size_dec n = (n - 1) mod 2 ^ 64"
    unfolding size_dec_def by (metis mod_mult_self1)
  with n show ?thesis by (simp add: apr_size_max_def)
qed

lemma row_bits_cong:
  "matrix c' = matrix c \<Longrightarrow> capacity c' = capacity c \<Longrightarrow> row_bits c' i = row_bits c i"
  by (simp add: row_bits_def)

lemma col_bits_cong:
  "matrix c' = matrix c \<Longrightarrow> capacity c' = capacity c \<Longrightarrow> col_bits c' i = col_bits c i"
  by (simp add: col_bits_def)

lemma row_bits_free:
  "assoc_ok c \<Longrightarrow> i < capacity c \<Longrightarrow> \<not> occupied c i \<Longrightarrow> row_bits c i = 0"
  by (auto simp: row_bits_def assoc_ok_def filter_empty_conv)

lemma col_bits_free:
  "assoc_ok c \<Longrightarrow> i < capacity c \<Longrightarrow> \<not> occupied c i \<Longrightarrow> col_bits c i = 0"
  by (auto simp: col_bits_def assoc_ok_def filter_empty_conv)

lemma add_at_inv:
  fixes t :: termination_ptr
  assumes inv: "mpf_inv s" and i: "i < capacity (ctx s)"
    and free: "termination_p (header (ctx s) ! i) = None"
  defines "c' \<equiv> (ctx s)\<lparr> header := (header (ctx s))[i := \<lparr> termination_p = Some t, tx_count = 0, rx_count = 0 \<rparr>],
                           count := size_inc (count (ctx s)) \<rparr>"
  shows "mpf_inv (s\<lparr> ctx := c',
                     ring := (if count (ctx s) = 0 then ring s @ [link (ctx s)] else ring s),
                     terminations := ts \<rparr>)"
proof -
  let ?c = "ctx s"
  from inv have sh: "shape_ok ?c" and co: "counts_ok ?c" and cn: "count_ok ?c"
    and ri: "ring_ok s" and as: "assoc_ok ?c"
    by (simp_all add: mpf_inv_def)
  have cap: "capacity c' = capacity ?c" and mat: "matrix c' = matrix ?c"
    and lnk: "link c' = link ?c"
    by (simp_all add: c'_def)
  have occ: "occupied c' a = (occupied ?c a \<or> a = i)" if "a < capacity ?c" for a
    using that i sh by (simp add: c'_def occupied_def shape_ok_def nth_list_update)
  have nocc: "\<not> occupied ?c i" using free by (simp add: occupied_def)
  have sh': "shape_ok c'" using sh by (simp add: shape_ok_def c'_def)
  have co': "counts_ok c'"
    unfolding counts_ok_def cap
  proof (intro allI impI)
    fix a assume a: "a < capacity ?c"
    show "unat (tx_count (header c' ! a)) = row_bits c' a \<and>
          unat (rx_count (header c' ! a)) = col_bits c' a"
    proof (cases "a = i")
      case True
      with i sh as nocc show ?thesis
        by (simp add: row_bits_cong [OF mat cap] col_bits_cong [OF mat cap]
              row_bits_free col_bits_free)
           (simp add: c'_def shape_ok_def)
    next
      case False
      with a co sh show ?thesis
        by (simp add: row_bits_cong [OF mat cap] col_bits_cong [OF mat cap] counts_ok_def)
           (simp add: c'_def)
    qed
  qed
  have up: "occupied_upto c' (capacity ?c) = Suc (occupied_upto ?c (capacity ?c))"
    unfolding occupied_upto_def
    by (rule filter_upt_off [where k = i]) (use i nocc occ in auto)
  have "occupied_upto c' (capacity ?c) \<le> capacity ?c" by (rule occupied_upto_le)
  with up sh have "occupied_upto ?c (capacity ?c) < apr_size_max"
    by (simp add: shape_ok_def)
  with cn have inc: "size_inc (count ?c) = Suc (count ?c)"
    by (simp add: count_ok_def size_inc_Suc)
  have cnt: "count c' = Suc (count ?c)" using inc by (simp add: c'_def)
  have cn': "count_ok c'"
    using cn up cnt by (simp add: count_ok_def cap)
  have as': "assoc_ok c'"
    using as occ by (auto simp: assoc_ok_def cap mat)
  have ri': "ring_ok (s\<lparr> ctx := c',
                     ring := (if count (ctx s) = 0 then ring s @ [link (ctx s)] else ring s),
                     terminations := ts \<rparr>)"
    using ri by (auto simp: ring_ok_def lnk cnt)
  show ?thesis
    using sh' co' cn' as' ri' by (simp add: mpf_inv_def ring_ok_def)
qed

lemma termination_add_from_inv:
  "mpf_inv s \<Longrightarrow> mpf_inv (snd (termination_add_from i t s))"
proof (induction i t s rule: termination_add_from.induct)
  case (1 i t s)
  show ?case
  proof (cases "i < capacity (ctx s)")
    case False
    with 1 show ?thesis by (subst termination_add_from.simps) simp
  next
    case True
    show ?thesis
    proof (cases "termination_p (header (ctx s) ! i) = None")
      case False
      with True 1 show ?thesis by (subst termination_add_from.simps) (simp add: Let_def)
    next
      case free: True
      from add_at_inv [OF "1.prems" True free]
      show ?thesis using True free 
        by (subst termination_add_from.simps) (simp add: Let_def)
    qed
  qed
qed

definition frame_eq :: "mpf_context \<Rightarrow> mpf_context \<Rightarrow> bool" where
  "frame_eq c' c =
     (capacity c' = capacity c \<and> count c' = count c \<and> link c' = link c \<and>
      mpf_objects c' = mpf_objects c \<and>
      (\<forall>a. termination_p (header c' ! a) = termination_p (header c ! a)))"

definition bits_le :: "mpf_context \<Rightarrow> mpf_context \<Rightarrow> bool" where
  "bits_le c' c =
     (\<forall>a < capacity c. \<forall>b < capacity c. matrix c' ! a ! b \<longrightarrow> matrix c ! a ! b)"

definition clears :: "mpf_context \<Rightarrow> mpf_context \<Rightarrow> bool" where
  "clears c c' = (frame_eq c' c \<and> shape_ok c' \<and> counts_ok c' \<and> bits_le c' c)"

lemma clears_refl: "shape_ok c \<Longrightarrow> counts_ok c \<Longrightarrow> clears c c"
  by (simp add: clears_def frame_eq_def bits_le_def)

lemma clears_trans: "clears c c' \<Longrightarrow> clears c' c'' \<Longrightarrow> clears c c''"
  by (simp add: clears_def frame_eq_def bits_le_def)

lemma clears_item_clear:
  "shape_ok c \<Longrightarrow> counts_ok c \<Longrightarrow> i < capacity c \<Longrightarrow> j < capacity c \<Longrightarrow>
   clears c (item_clear i j c)"
  by (simp add: clears_def frame_eq_def bits_le_def counts_ok_item_clear matrix_item_clear)

lemma clears_item_clear2:
  assumes "clears c0 c" "i < capacity c" "j < capacity c"
  shows "clears c0 (item_clear j i (item_clear i j c))"
proof -
  from assms have sc: "shape_ok c" "counts_ok c" by (simp_all add: clears_def)
  have 1: "clears c (item_clear i j c)" using sc assms by (simp add: clears_item_clear)
  then have "clears (item_clear i j c) (item_clear j i (item_clear i j c))"
    using assms by (intro clears_item_clear) (simp_all add: clears_def)
  with 1 assms(1) show ?thesis by (blast intro: clears_trans)
qed

lemma clears_occupied: "clears c c' \<Longrightarrow> occupied c' a = occupied c a"
  by (simp add: clears_def frame_eq_def occupied_def)

lemma clears_occupied_upto: "clears c c' \<Longrightarrow> occupied_upto c' n = occupied_upto c n"
  unfolding occupied_upto_def
  by (rule arg_cong [where f = length], rule filter_cong) (simp_all add: clears_occupied)

lemma clears_capacity: "clears c c' \<Longrightarrow> capacity c' = capacity c"
  by (simp add: clears_def frame_eq_def)

lemma clears_count: "clears c c' \<Longrightarrow> count c' = count c"
  by (simp add: clears_def frame_eq_def)

lemma clears_off:
  "clears c c' \<Longrightarrow> a < capacity c \<Longrightarrow> b < capacity c \<Longrightarrow> \<not> matrix c ! a ! b \<Longrightarrow>
   \<not> matrix c' ! a ! b"
  by (auto simp: clears_def bits_le_def)

lemma clears_assoc_ok: "clears c c' \<Longrightarrow> assoc_ok c \<Longrightarrow> assoc_ok c'"
  by (auto simp: assoc_ok_def clears_capacity clears_occupied dest: clears_off)

lemma clears_count_ok: "clears c c' \<Longrightarrow> count_ok c \<Longrightarrow> count_ok c'"
  by (simp add: count_ok_def clears_capacity clears_occupied_upto clears_count)

lemma subtract_loop_exit:
  "\<not> (j < capacity c \<and> k < count c) \<Longrightarrow> subtract_loop i j k c = c"
  by (subst subtract_loop.simps) auto

lemma subtract_loop_free:
  "j < capacity c \<Longrightarrow> k < count c \<Longrightarrow> termination_p (header c ! j) = None \<Longrightarrow>
   subtract_loop i j k c = subtract_loop i (j + 1) k c"
  by (subst subtract_loop.simps) auto

lemma subtract_loop_occ:
  "j < capacity c \<Longrightarrow> k < count c \<Longrightarrow> termination_p (header c ! j) \<noteq> None \<Longrightarrow>
   subtract_loop i j k c =
     subtract_loop i (j + 1) (k + 1) (item_clear j i (item_clear i j c))"
  by (subst subtract_loop.simps) auto

lemma subtract_loop_clears:
  "clears c0 c \<Longrightarrow> i < capacity c \<Longrightarrow> clears c0 (subtract_loop i j k c)"
proof (induction i j k c rule: subtract_loop.induct)
  case (1 i j k c)
  show ?case
  proof (cases "j < capacity c \<and> k < count c")
    case False
    then have "subtract_loop i j k c = c" by (rule subtract_loop_exit)
    with "1.prems" show ?thesis by simp
  next
    case True
    then have jl: "j < capacity c" and kl: "k < count c" by simp_all
    show ?thesis
    proof (cases "termination_p (header c ! j) = None")
      case free: True
      have "clears c0 (subtract_loop i (j + 1) k c)"
        using True free "1.prems" by (intro "1.IH"(1)) simp_all
      then show ?thesis unfolding subtract_loop_free [OF jl kl free] .
    next
      case False
      have "clears c0 (item_clear j i (item_clear i j c))"
        using "1.prems" True by (intro clears_item_clear2) simp_all
      then have "clears c0 (subtract_loop i (j + 1) (k + 1) (item_clear j i (item_clear i j c)))"
        using True False "1.prems" by (intro "1.IH"(2)) simp_all
      then show ?thesis unfolding subtract_loop_occ [OF jl kl False] .
    qed
  qed
qed

lemma occupied_upto_Suc:
  "occupied_upto c (Suc n) = occupied_upto c n + (if occupied c n then 1 else 0)"
  by (simp add: occupied_upto_def)

lemma occupied_upto_mono: "m \<le> n \<Longrightarrow> occupied_upto c m \<le> occupied_upto c n"
  by (induction n) (auto simp: occupied_upto_Suc le_Suc_eq)

lemma occupied_upto_full:
  assumes "occupied_upto c n \<le> occupied_upto c j" "j \<le> b" "b < n"
  shows "\<not> occupied c b"
proof
  assume "occupied c b"
  then have "occupied_upto c (Suc b) = Suc (occupied_upto c b)"
    by (simp add: occupied_upto_Suc)
  moreover have "occupied_upto c j \<le> occupied_upto c b"
    using assms by (intro occupied_upto_mono) simp
  moreover have "occupied_upto c (Suc b) \<le> occupied_upto c n"
    using assms by (intro occupied_upto_mono) simp
  ultimately show False using assms(1) by simp
qed

lemma subtract_loop_cleared:
  assumes "shape_ok c" "counts_ok c" "i < capacity c" "k = occupied_upto c j"
    "count c = occupied_upto c (capacity c)" "j \<le> b" "b < capacity c" "occupied c b"
  shows "\<not> matrix (subtract_loop i j k c) ! i ! b \<and> \<not> matrix (subtract_loop i j k c) ! b ! i"
  using assms
proof (induction i j k c rule: subtract_loop.induct)
  case (1 i j k c)
  show ?case
  proof (cases "j < capacity c \<and> k < count c")
    case False
    with "1.prems"(7) \<open>j \<le> b\<close> have "\<not> k < count c" by simp
    with "1.prems" have "occupied_upto c (capacity c) \<le> occupied_upto c j" by simp
    from occupied_upto_full [OF this "1.prems"(6,7)] "1.prems"(8) show ?thesis by simp
  next
    case True
    show ?thesis
    proof (cases "termination_p (header c ! j) = None")
      case free: True
      then have nj: "\<not> occupied c j" by (simp add: occupied_def)
      with "1.prems" have "j \<noteq> b" by auto
      with "1.prems" have jb: "j + 1 \<le> b" by simp
      have k: "k = occupied_upto c (j + 1)"
        using "1.prems"(4) nj by (simp add: occupied_upto_Suc)
      from "1.IH"(1) [OF True free "1.prems"(1,2,3) k "1.prems"(5) jb "1.prems"(7,8)]
      show ?thesis
        unfolding subtract_loop_free [OF conjunct1 [OF True] conjunct2 [OF True] free] .
    next
      case False
      let ?c = "item_clear j i (item_clear i j c)"
      have cl: "clears c ?c"
        using "1.prems" True by (intro clears_item_clear2 clears_refl) simp_all
      have oj: "occupied c j" using False by (simp add: occupied_def)
      have k: "k + 1 = occupied_upto ?c (j + 1)"
        using "1.prems"(4) oj by (simp add: occupied_upto_Suc clears_occupied_upto [OF cl])
      have cnt: "count ?c = occupied_upto ?c (capacity ?c)"
        using "1.prems"(5) by (simp add: clears_occupied_upto [OF cl])
      have eq: "subtract_loop i j k c = subtract_loop i (j + 1) (k + 1) ?c"
        using True False by (intro subtract_loop_occ) simp_all
      show ?thesis
      proof (cases "j = b")
        case True
        have off: "\<not> matrix ?c ! i ! b \<and> \<not> matrix ?c ! b ! i"
          using "1.prems" True by (auto simp: matrix_item_clear)
        have "clears ?c (subtract_loop i (j + 1) (k + 1) ?c)"
          using cl "1.prems" by (intro subtract_loop_clears clears_refl) (simp_all add: clears_def)
        with off "1.prems" show ?thesis
          unfolding eq by (auto dest: clears_off)
      next
        case nb: False
        with "1.prems" have jb: "j + 1 \<le> b" by simp
        have "\<not> matrix (subtract_loop i (j + 1) (k + 1) ?c) ! i ! b \<and>
              \<not> matrix (subtract_loop i (j + 1) (k + 1) ?c) ! b ! i"
          using cl "1.prems" k cnt jb
          by (intro "1.IH"(2) [OF True False]) (simp_all add: clears_def clears_occupied [OF cl])
        then show ?thesis unfolding eq .
      qed
    qed
  qed
qed

lemma subtract_at_inv:
  fixes s :: mpf_state
  assumes sh: "shape_ok c1" and co: "counts_ok c1" and as: "assoc_ok c1" and cn: "count_ok c1"
    and i: "i < capacity c1" and oi: "occupied c1 i"
    and clr: "\<And>b. b < capacity c1 \<Longrightarrow> \<not> matrix c1 ! i ! b \<and> \<not> matrix c1 ! b ! i"
    and ri: "(link c1 \<in> set r) = (0 < count c1)"
  defines "c3 \<equiv> c1\<lparr> header := (header c1)[i := (header c1 ! i)\<lparr> termination_p := None \<rparr>],
                        count := size_dec (count c1) \<rparr>"
  shows "mpf_inv (s\<lparr> ctx := c3,
                     ring := (if count c3 = 0 then removeAll (link c3) r else r),
                     terminations := ts \<rparr>)"
proof -
  have cap: "capacity c3 = capacity c1" and mat: "matrix c3 = matrix c1"
    and lnk: "link c3 = link c1"
    by (simp_all add: c3_def)
  have occ: "occupied c3 a = (occupied c1 a \<and> a \<noteq> i)" if "a < capacity c1" for a
    using that i sh by (simp add: c3_def occupied_def shape_ok_def nth_list_update)
  have sh': "shape_ok c3" using sh by (simp add: shape_ok_def c3_def)
  have hd: "tx_count (header c3 ! a) = tx_count (header c1 ! a) \<and>
            rx_count (header c3 ! a) = rx_count (header c1 ! a)" if "a < capacity c1" for a
    using that i sh by (simp add: c3_def shape_ok_def nth_list_update)
  have co': "counts_ok c3"
    using co hd
    by (simp add: counts_ok_def cap row_bits_cong [OF mat cap] col_bits_cong [OF mat cap])
  have up: "occupied_upto c1 (capacity c1) = Suc (occupied_upto c3 (capacity c1))"
    unfolding occupied_upto_def
    by (rule filter_upt_off [where k = i]) (use i oi occ in auto)
  have "occupied_upto c1 (capacity c1) \<le> capacity c1" by (rule occupied_upto_le)
  with sh have "occupied_upto c1 (capacity c1) \<le> apr_size_max"
    by (simp add: shape_ok_def)
  with up cn have dec: "size_dec (count c1) = count c1 - 1"
    by (intro size_dec_pred) (simp_all add: count_ok_def)
  have cnt: "count c3 = count c1 - 1" using dec by (simp add: c3_def)
  have pos: "0 < count c1" using up cn by (simp add: count_ok_def)
  have cn': "count_ok c3"
    using cn up cnt by (simp add: count_ok_def cap)
  have as': "assoc_ok c3"
    unfolding assoc_ok_def cap mat
  proof (intro allI impI)
    fix a b assume ab: "a < capacity c1" "b < capacity c1" "matrix c1 ! a ! b"
    with as have "occupied c1 a" "occupied c1 b" by (auto simp: assoc_ok_def)
    moreover from ab clr have "a \<noteq> i" "b \<noteq> i" by auto
    ultimately show "occupied c3 a \<and> occupied c3 b" using ab by (simp add: occ)
  qed
  have ri': "ring_ok (s\<lparr> ctx := c3,
                     ring := (if count c3 = 0 then removeAll (link c3) r else r),
                     terminations := ts \<rparr>)"
    using ri pos by (auto simp: ring_ok_def lnk cnt)
  show ?thesis
    using sh' co' cn' as' ri' by (simp add: mpf_inv_def ring_ok_def)
qed

lemma termination_subtract_inv:
  assumes "mpf_inv s"
  shows "mpf_inv (snd (mpf_context_termination_subtract t s))"
proof -
  let ?c = "ctx s" and ?i = "slot (terminations s t)"
  from assms have sh: "shape_ok ?c" and co: "counts_ok ?c" and cn: "count_ok ?c"
    and ri: "ring_ok s" and as: "assoc_ok ?c"
    by (simp_all add: mpf_inv_def)
  show ?thesis
  proof (cases "?i < capacity ?c \<and> termination_p (header ?c ! ?i) = Some t")
    case False
    with assms show ?thesis
      by (auto simp: mpf_context_termination_subtract_def Let_def)
  next
    case True
    then have i: "?i < capacity ?c" and oi: "occupied ?c ?i"
      by (simp_all add: occupied_def)
    let ?c1 = "subtract_loop ?i 0 0 ?c"
    have cl: "clears ?c ?c1"
      using sh co i by (intro subtract_loop_clears clears_refl)
    have clr: "\<not> matrix ?c1 ! ?i ! b \<and> \<not> matrix ?c1 ! b ! ?i" if b: "b < capacity ?c1" for b
    proof (cases "occupied ?c b")
      case occ: True
      from b have "b < capacity ?c" by (simp add: clears_capacity [OF cl])
      with sh co i cn occ show ?thesis
        by (intro subtract_loop_cleared) (simp_all add: count_ok_def occupied_upto_def)
    next
      case False
      then have "\<not> occupied ?c1 b" by (simp add: clears_occupied [OF cl])
      with clears_assoc_ok [OF cl as] b i show ?thesis
        by (auto simp: assoc_ok_def clears_capacity [OF cl])
    qed
    have "mpf_inv (s\<lparr> ctx := ?c1\<lparr> header := (header ?c1)[?i := (header ?c1 ! ?i)\<lparr> termination_p := None \<rparr>],
                        count := size_dec (count ?c1) \<rparr>,
                     ring := (if count (?c1\<lparr> header := (header ?c1)[?i := (header ?c1 ! ?i)\<lparr> termination_p := None \<rparr>],
                        count := size_dec (count ?c1) \<rparr>) = 0 then removeAll (link (?c1\<lparr> header := (header ?c1)[?i := (header ?c1 ! ?i)\<lparr> termination_p := None \<rparr>],
                        count := size_dec (count ?c1) \<rparr>)) (ring s) else ring s),
                     terminations := (terminations s)(t := (terminations s t)\<lparr> slot := apr_size_max \<rparr>) \<rparr>)"
    proof (rule subtract_at_inv)
      show "shape_ok ?c1" "counts_ok ?c1" using cl by (simp_all add: clears_def)
      show "assoc_ok ?c1" by (rule clears_assoc_ok [OF cl as])
      show "count_ok ?c1" by (rule clears_count_ok [OF cl cn])
      show "?i < capacity ?c1" using i by (simp add: clears_capacity [OF cl])
      show "occupied ?c1 ?i" using oi by (simp add: clears_occupied [OF cl])
      show "\<And>b. b < capacity ?c1 \<Longrightarrow> \<not> matrix ?c1 ! ?i ! b \<and> \<not> matrix ?c1 ! b ! ?i"
        by (rule clr)
      show "(link ?c1 \<in> set (ring s)) = (0 < count ?c1)"
        using ri cl by (simp add: ring_ok_def clears_def frame_eq_def)
    qed
    with True show ?thesis
      by (cases "size_dec (count ?c1) = 0")
         (simp_all add: mpf_context_termination_subtract_def Let_def)
  qed
qed

lemma clears_inv: "mpf_inv s \<Longrightarrow> clears (ctx s) c' \<Longrightarrow> mpf_inv (s\<lparr> ctx := c' \<rparr>)"
  by (simp add: mpf_inv_def clears_assoc_ok clears_count_ok ring_ok_def)
     (simp add: clears_def frame_eq_def)

lemma association_remove_inv:
  assumes "mpf_inv s"
  shows "mpf_inv (snd (mpf_context_association_remove t1 t2 s))"
proof -
  let ?c = "ctx s" and ?i = "slot (terminations s t1)" and ?j = "slot (terminations s t2)"
  show ?thesis
  proof (cases "?i < capacity ?c \<and> ?j < capacity ?c")
    case False
    with assms show ?thesis
      by (auto simp: mpf_context_association_remove_def Let_def)
  next
    case True
    have "clears ?c (item_clear ?j ?i (item_clear ?i ?j ?c))"
      using assms True by (intro clears_item_clear2 clears_refl) (simp_all add: mpf_inv_def)
    from clears_inv [OF assms this] assms show ?thesis
      by (simp add: mpf_context_association_remove_def Let_def)
  qed
qed

lemma item_set_inv:
  assumes inv: "mpf_inv s" and ij: "i < capacity (ctx s)" "j < capacity (ctx s)"
    and occ: "occupied (ctx s) i" "occupied (ctx s) j"
    and off: "\<not> matrix (ctx s) ! i ! j" and cap: "capacity (ctx s) \<le> 255"
  shows "mpf_inv (s\<lparr> ctx := item_set i j (ctx s) \<rparr>)"
proof -
  let ?c = "ctx s"
  from inv have sh: "shape_ok ?c" and co: "counts_ok ?c" and cn: "count_ok ?c"
    and ri: "ring_ok s" and as: "assoc_ok ?c"
    by (simp_all add: mpf_inv_def)
  have "counts_ok (item_set i j ?c)"
    using sh co ij off cap by (rule counts_ok_item_set)
  moreover have "assoc_ok (item_set i j ?c)"
    using as sh ij occ by (auto simp: assoc_ok_def matrix_item_set)
  moreover have "count_ok (item_set i j ?c)"
    using cn by (simp add: count_ok_def occupied_upto_def occupied_def [abs_def])
  ultimately show ?thesis
    using sh ri by (simp add: mpf_inv_def ring_ok_def)
qed

lemma association_add_inv:
  assumes inv: "mpf_inv s" and cap: "capacity (ctx s) \<le> 255"
  shows "mpf_inv (snd (mpf_context_association_add t1 t2 s))"
proof -
  let ?c = "ctx s" and ?i = "slot (terminations s t1)" and ?j = "slot (terminations s t2)"
  show ?thesis
  proof (cases "?i < capacity ?c \<and> ?j < capacity ?c \<and>
                termination_p (header ?c ! ?i) = Some t1 \<and> termination_p (header ?c ! ?j) = Some t2")
    case False
    with inv show ?thesis
      by (auto simp: mpf_context_association_add_def Let_def)
  next
    case True
    then have ij: "?i < capacity ?c" "?j < capacity ?c" and occ: "occupied ?c ?i" "occupied ?c ?j"
      by (simp_all add: occupied_def)
    define c1 where "c1 = (if \<not> matrix ?c ! ?i ! ?j \<and>
                      stream_mode_compatibility_check (terminations s t1) (terminations s t2)
                   then item_set ?i ?j ?c else ?c)"
    define c2 where "c2 = (if \<not> matrix c1 ! ?j ! ?i \<and>
                      stream_mode_compatibility_check (terminations s t2) (terminations s t1)
                   then item_set ?j ?i c1 else c1)"
    have 1: "mpf_inv (s\<lparr> ctx := c1 \<rparr>)"
      unfolding c1_def using inv item_set_inv [OF inv ij occ _ cap] by simp
    have c1: "capacity c1 = capacity ?c" "occupied c1 = occupied ?c"
      by (auto simp: c1_def)
    have 2: "mpf_inv (s\<lparr> ctx := c2 \<rparr>)"
    proof (cases "\<not> matrix c1 ! ?j ! ?i \<and>
                      stream_mode_compatibility_check (terminations s t2) (terminations s t1)")
      case False
      with 1 show ?thesis by (auto simp: c2_def)
    next
      case True
      have "mpf_inv ((s\<lparr> ctx := c1 \<rparr>)\<lparr> ctx := item_set ?j ?i (ctx (s\<lparr> ctx := c1 \<rparr>)) \<rparr>)"
        using 1 ij occ cap True by (intro item_set_inv) (simp_all add: c1)
      with True show ?thesis by (simp add: c2_def)
    qed
    have "snd (mpf_context_association_add t1 t2 s) = s\<lparr> ctx := c2 \<rparr>"
      using True by (simp add: mpf_context_association_add_def Let_def c1_def c2_def)
    with 2 show ?thesis by simp
  qed
qed

lemma reset_inner_exit: "\<not> j < capacity c \<Longrightarrow> reset_inner i j c = c"
  by (subst reset_inner.simps) auto

lemma reset_inner_free:
  "j < capacity c \<Longrightarrow> termination_p (header c ! j) = None \<Longrightarrow>
   reset_inner i j c = reset_inner i (j + 1) c"
  by (subst reset_inner.simps) auto

lemma reset_inner_occ:
  "j < capacity c \<Longrightarrow> termination_p (header c ! j) \<noteq> None \<Longrightarrow>
   reset_inner i j c = reset_inner i (j + 1) (item_clear j i (item_clear i j c))"
  by (subst reset_inner.simps) auto

lemma reset_inner_clears:
  "clears c0 c \<Longrightarrow> i < capacity c \<Longrightarrow> clears c0 (reset_inner i j c)"
proof (induction i j c rule: reset_inner.induct)
  case (1 i j c)
  show ?case
  proof (cases "j < capacity c")
    case False
    then have "reset_inner i j c = c" by (rule reset_inner_exit)
    with "1.prems" show ?thesis by simp
  next
    case True
    show ?thesis
    proof (cases "termination_p (header c ! j) = None")
      case free: True
      have "clears c0 (reset_inner i (j + 1) c)"
        using True free "1.prems" by (intro "1.IH"(1)) simp_all
      then show ?thesis unfolding reset_inner_free [OF True free] .
    next
      case False
      have "clears c0 (item_clear j i (item_clear i j c))"
        using "1.prems" True by (intro clears_item_clear2) simp_all
      then have "clears c0 (reset_inner i (j + 1) (item_clear j i (item_clear i j c)))"
        using True False "1.prems" by (intro "1.IH"(2)) simp_all
      then show ?thesis unfolding reset_inner_occ [OF True False] .
    qed
  qed
qed

lemma reset_inner_cleared:
  assumes "shape_ok c" "counts_ok c" "i < capacity c" "j \<le> b" "b < capacity c" "occupied c b"
  shows "\<not> matrix (reset_inner i j c) ! i ! b \<and> \<not> matrix (reset_inner i j c) ! b ! i"
  using assms
proof (induction i j c rule: reset_inner.induct)
  case (1 i j c)
  from "1.prems" have jl: "j < capacity c" by simp
  show ?case
  proof (cases "termination_p (header c ! j) = None")
    case free: True
    then have "\<not> occupied c j" by (simp add: occupied_def)
    with "1.prems" have "j \<noteq> b" by auto
    with "1.prems" have jb: "j + 1 \<le> b" by simp
    from "1.IH"(1) [OF jl free "1.prems"(1,2,3) jb "1.prems"(5,6)]
    show ?thesis unfolding reset_inner_free [OF jl free] .
  next
    case False
    let ?c = "item_clear j i (item_clear i j c)"
    have cl: "clears c ?c"
      using "1.prems" jl by (intro clears_item_clear2 clears_refl) simp_all
    show ?thesis
    proof (cases "j = b")
      case True
      have off: "\<not> matrix ?c ! i ! b \<and> \<not> matrix ?c ! b ! i"
        using "1.prems" True by (auto simp: matrix_item_clear)
      have "clears ?c (reset_inner i (j + 1) ?c)"
        using cl "1.prems" by (intro reset_inner_clears clears_refl) (simp_all add: clears_def)
      with off "1.prems" show ?thesis
        unfolding reset_inner_occ [OF jl False] by (auto dest: clears_off)
    next
      case nb: False
      with "1.prems" have jb: "j + 1 \<le> b" by simp
      have "\<not> matrix (reset_inner i (j + 1) ?c) ! i ! b \<and>
            \<not> matrix (reset_inner i (j + 1) ?c) ! b ! i"
        using cl "1.prems" jb
        by (intro "1.IH"(2) [OF jl False]) (simp_all add: clears_def clears_occupied [OF cl])
      then show ?thesis unfolding reset_inner_occ [OF jl False] .
    qed
  qed
qed

lemma reset_outer_exit:
  "\<not> (i < capacity c \<and> k < count c) \<Longrightarrow> reset_outer i k c = c"
  by (subst reset_outer.simps) auto

lemma reset_outer_free:
  "i < capacity c \<Longrightarrow> k < count c \<Longrightarrow> termination_p (header c ! i) = None \<Longrightarrow>
   reset_outer i k c = reset_outer (i + 1) k c"
  by (subst reset_outer.simps) auto

lemma reset_outer_skip:
  "i < capacity c \<Longrightarrow> k < count c \<Longrightarrow> termination_p (header c ! i) \<noteq> None \<Longrightarrow>
   tx_count (header c ! i) = 0 \<and> rx_count (header c ! i) = 0 \<Longrightarrow>
   reset_outer i k c = reset_outer (i + 1) (k + 1) c"
  by (subst reset_outer.simps) auto

lemma reset_outer_occ:
  "i < capacity c \<Longrightarrow> k < count c \<Longrightarrow> termination_p (header c ! i) \<noteq> None \<Longrightarrow>
   \<not> (tx_count (header c ! i) = 0 \<and> rx_count (header c ! i) = 0) \<Longrightarrow>
   reset_outer i k c = reset_outer (i + 1) (k + 1) (reset_inner i i c)"
  by (subst reset_outer.simps) auto

lemma reset_outer_clears:
  "clears c0 c \<Longrightarrow> clears c0 (reset_outer i k c)"
proof (induction i k c rule: reset_outer.induct)
  case (1 i k c)
  show ?case
  proof (cases "i < capacity c \<and> k < count c")
    case False
    then have "reset_outer i k c = c" by (rule reset_outer_exit)
    with "1.prems" show ?thesis by simp
  next
    case True
    then have il: "i < capacity c" and kl: "k < count c" by simp_all
    show ?thesis
    proof (cases "termination_p (header c ! i) = None")
      case free: True
      have "clears c0 (reset_outer (i + 1) k c)"
        using True free "1.prems" by (intro "1.IH"(1)) simp_all
      then show ?thesis unfolding reset_outer_free [OF il kl free] .
    next
      case False
      show ?thesis
      proof (cases "tx_count (header c ! i) = 0 \<and> rx_count (header c ! i) = 0")
        case zero: True
        have "clears c0 (reset_outer (i + 1) (k + 1) c)"
          using True False zero "1.prems" by (intro "1.IH"(2)) simp_all
        then show ?thesis unfolding reset_outer_skip [OF il kl False zero] .
      next
        case nz: False
        have "clears c0 (reset_inner i i c)"
          using "1.prems" il by (intro reset_inner_clears) simp_all
        then have "clears c0 (reset_outer (i + 1) (k + 1) (reset_inner i i c))"
          using True False nz by (intro "1.IH"(3)) simp_all
        then show ?thesis unfolding reset_outer_occ [OF il kl False nz] .
      qed
    qed
  qed
qed


lemma counts_zero_row:
  assumes "counts_ok c" "i < capacity c" "tx_count (header c ! i) = 0" "b < capacity c"
  shows "\<not> matrix c ! i ! b"
proof -
  from assms have "row_bits c i = 0" by (auto simp: counts_ok_def)
  with assms(4) show ?thesis by (auto simp: row_bits_def filter_empty_conv)
qed

lemma counts_zero_col:
  assumes "counts_ok c" "i < capacity c" "rx_count (header c ! i) = 0" "b < capacity c"
  shows "\<not> matrix c ! b ! i"
proof -
  from assms have "col_bits c i = 0" by (auto simp: counts_ok_def)
  with assms(4) show ?thesis by (auto simp: col_bits_def filter_empty_conv)
qed

lemma reset_outer_cleared:
  assumes "shape_ok c" "counts_ok c" "k = occupied_upto c i"
    "count c = occupied_upto c (capacity c)" "i \<le> a" "a \<le> b" "b < capacity c"
    "occupied c a" "occupied c b"
  shows "\<not> matrix (reset_outer i k c) ! a ! b \<and> \<not> matrix (reset_outer i k c) ! b ! a"
  using assms
proof (induction i k c rule: reset_outer.induct)
  case (1 i k c)
  from "1.prems" have il: "i < capacity c" and al: "a < capacity c" by simp_all
  have kl: "k < count c"
  proof (rule ccontr)
    assume "\<not> k < count c"
    with "1.prems" have "occupied_upto c (capacity c) \<le> occupied_upto c i" by simp
    from occupied_upto_full [OF this "1.prems"(5) al] "1.prems"(8) show False by simp
  qed
  have ik: "i < capacity c \<and> k < count c" using il kl by simp
  show ?case
  proof (cases "termination_p (header c ! i) = None")
    case free: True
    then have ni: "\<not> occupied c i" by (simp add: occupied_def)
    with "1.prems" have "i \<noteq> a" by auto
    with "1.prems" have ia: "i + 1 \<le> a" by simp
    have k: "k = occupied_upto c (i + 1)"
      using "1.prems"(3) ni by (simp add: occupied_upto_Suc)
    from "1.IH"(1) [OF ik free "1.prems"(1,2) k "1.prems"(4) ia "1.prems"(6,7,8,9)]
    show ?thesis unfolding reset_outer_free [OF il kl free] .
  next
    case False
    then have oi: "occupied c i" by (simp add: occupied_def)
    show ?thesis
    proof (cases "tx_count (header c ! i) = 0 \<and> rx_count (header c ! i) = 0")
      case zero: True
      have eq: "reset_outer i k c = reset_outer (i + 1) (k + 1) c"
        by (rule reset_outer_skip [OF il kl False zero])
      have k: "k + 1 = occupied_upto c (i + 1)"
        using "1.prems"(3) oi by (simp add: occupied_upto_Suc)
      show ?thesis
      proof (cases "i = a")
        case True
        have off: "\<not> matrix c ! a ! b \<and> \<not> matrix c ! b ! a"
          using counts_zero_row [OF "1.prems"(2) il _ "1.prems"(7)]
            counts_zero_col [OF "1.prems"(2) il _ "1.prems"(7)] zero True
          by simp
        have cl': "clears c (reset_outer (i + 1) (k + 1) c)"
          using "1.prems" by (intro reset_outer_clears clears_refl)
        show ?thesis
          unfolding eq
          using clears_off [OF cl' al "1.prems"(7)] clears_off [OF cl' "1.prems"(7) al] off
          by blast
      next
        case na: False
        with "1.prems" have ia: "i + 1 \<le> a" by simp
        from "1.IH"(2) [OF ik False zero "1.prems"(1,2) k "1.prems"(4) ia "1.prems"(6,7,8,9)]
        show ?thesis unfolding eq .
      qed
    next
      case nz: False
      let ?c = "reset_inner i i c"
      have eq: "reset_outer i k c = reset_outer (i + 1) (k + 1) ?c"
        by (rule reset_outer_occ [OF il kl False nz])
      have cl: "clears c ?c"
        using "1.prems" il by (intro reset_inner_clears clears_refl)
      have k: "k + 1 = occupied_upto ?c (i + 1)"
        using "1.prems"(3) oi
        by (simp add: occupied_upto_Suc clears_occupied_upto [OF cl] clears_occupied [OF cl])
      have cnt: "count ?c = occupied_upto ?c (capacity ?c)"
        using "1.prems"(4) by (simp add: clears_occupied_upto [OF cl])
      show ?thesis
      proof (cases "i = a")
        case True
        have "\<not> matrix ?c ! i ! b \<and> \<not> matrix ?c ! b ! i"
          using "1.prems" True il by (intro reset_inner_cleared) simp_all
        then have off: "\<not> matrix ?c ! a ! b \<and> \<not> matrix ?c ! b ! a"
          using True by simp
        have cl': "clears ?c (reset_outer (i + 1) (k + 1) ?c)"
          using cl by (intro reset_outer_clears clears_refl) (simp_all add: clears_def)
        have al': "a < capacity ?c" and bl': "b < capacity ?c"
          using al "1.prems"(7) by (simp_all add: clears_capacity [OF cl])
        show ?thesis
          unfolding eq
          using clears_off [OF cl' al' bl'] clears_off [OF cl' bl' al'] off
          by blast
      next
        case na: False
        with "1.prems" have ia: "i + 1 \<le> a" by simp
        have "\<not> matrix (reset_outer (i + 1) (k + 1) ?c) ! a ! b \<and>
              \<not> matrix (reset_outer (i + 1) (k + 1) ?c) ! b ! a"
          using cl "1.prems" k cnt ia
          by (intro "1.IH"(3) [OF ik False nz]) (simp_all add: clears_def clears_occupied [OF cl])
        then show ?thesis unfolding eq .
      qed
    qed
  qed
qed

lemma reset_outer_noop:
  "(\<And>a. a < capacity c \<Longrightarrow> tx_count (header c ! a) = 0 \<and> rx_count (header c ! a) = 0) \<Longrightarrow>
   reset_outer i k c = c"
proof (induction i k c rule: reset_outer.induct)
  case (1 i k c)
  show ?case
  proof (cases "i < capacity c \<and> k < count c")
    case False
    then show ?thesis by (rule reset_outer_exit)
  next
    case True
    then have il: "i < capacity c" and kl: "k < count c" by simp_all
    show ?thesis
    proof (cases "termination_p (header c ! i) = None")
      case free: True
      have "reset_outer (i + 1) k c = c"
        using True free "1.prems" by (intro "1.IH"(1)) simp_all
      then show ?thesis unfolding reset_outer_free [OF il kl free] .
    next
      case False
      have zero: "tx_count (header c ! i) = 0 \<and> rx_count (header c ! i) = 0"
        using "1.prems" il by simp
      have "reset_outer (i + 1) (k + 1) c = c"
        using True False zero "1.prems" by (intro "1.IH"(2)) simp_all
      then show ?thesis unfolding reset_outer_skip [OF il kl False zero] .
    qed
  qed
qed

lemma ctx_topology_destroy:
  "ctx (mpf_context_topology_destroy s) = (ctx s)\<lparr> mpf_objects := [] \<rparr>"
  by (simp add: mpf_context_topology_destroy_def)

lemma ring_topology_destroy [simp]: "ring (mpf_context_topology_destroy s) = ring s"
  by (simp add: mpf_context_topology_destroy_def)

lemma terminations_topology_destroy [simp]:
  "terminations (mpf_context_topology_destroy s) = terminations s"
  by (simp add: mpf_context_topology_destroy_def)

lemma destroyed_topology_destroy:
  "destroyed (mpf_context_topology_destroy s) = destroyed s @ mpf_objects (ctx s)"
  by (simp add: mpf_context_topology_destroy_def)

lemma topology_destroy_inv: "mpf_inv s \<Longrightarrow> mpf_inv (mpf_context_topology_destroy s)"
  by (simp add: mpf_inv_def ctx_topology_destroy shape_ok_def counts_ok_def count_ok_def
        ring_ok_def assoc_ok_def row_bits_def col_bits_def occupied_upto_def occupied_def [abs_def])

lemma associations_reset_inv:
  assumes "mpf_inv s"
  shows "mpf_inv (snd (mpf_context_associations_reset s))"
proof -
  let ?s1 = "mpf_context_topology_destroy s"
  have 1: "mpf_inv ?s1" using assms by (rule topology_destroy_inv)
  then have "clears (ctx ?s1) (reset_outer 0 0 (ctx ?s1))"
    by (intro reset_outer_clears clears_refl) (simp_all add: mpf_inv_def)
  from clears_inv [OF 1 this] show ?thesis
    by (simp add: mpf_context_associations_reset_def Let_def)
qed

lemma termination_add_inv:
  "mpf_inv s \<Longrightarrow> mpf_inv (snd (mpf_context_termination_add t s))"
  by (simp add: mpf_context_termination_add_def termination_add_from_inv)

lemma mpf_apply_inv:
  "mpf_inv s \<Longrightarrow> capacity (ctx s) \<le> 255 \<Longrightarrow> mpf_inv (snd (mpf_apply x s))"
  by (cases x)
     (simp_all add: termination_add_inv termination_subtract_inv association_add_inv
        association_remove_inv associations_reset_inv)

lemma capacity_termination_add_from [simp]:
  "capacity (ctx (snd (termination_add_from i t s))) = capacity (ctx s)"
proof (induction i t s rule: termination_add_from.induct)
  case (1 i t s)
  show ?case
  proof (cases "i < capacity (ctx s) \<and> termination_p (header (ctx s) ! i) \<noteq> None")
    case True
    with 1 show ?thesis by (subst termination_add_from.simps) (simp add: Let_def)
  next
    case False
    then show ?thesis by (subst termination_add_from.simps) (auto simp: Let_def)
  qed
qed

lemma capacity_subtract_loop [simp]: "capacity (subtract_loop i j k c) = capacity c"
  by (induction i j k c rule: subtract_loop.induct) (subst subtract_loop.simps, simp)

lemma capacity_reset_outer [simp]: "capacity (reset_outer i k c) = capacity c"
  by (induction i k c rule: reset_outer.induct) (subst reset_outer.simps, simp)

lemma capacity_mpf_apply [simp]: "capacity (ctx (snd (mpf_apply x s))) = capacity (ctx s)"
  by (cases x)
     (simp_all add: mpf_context_termination_add_def mpf_context_termination_subtract_def
        mpf_context_association_add_def mpf_context_association_remove_def
        mpf_context_associations_reset_def ctx_topology_destroy Let_def)

lemma mpf_run_inv:
  "mpf_inv s \<Longrightarrow> capacity (ctx s) \<le> 255 \<Longrightarrow> mpf_inv (mpf_run xs s)"
  by (induction xs arbitrary: s) (simp_all add: mpf_apply_inv)

lemma capacity_mpf_run [simp]: "capacity (ctx (mpf_run xs s)) = capacity (ctx s)"
  by (induction xs arbitrary: s) simp_all


lemma mpf_fresh_inv:
  assumes "n \<le> apr_size_max" "lnk \<notin> set r"
  shows "mpf_inv (mpf_fresh lnk n r ts)"
proof -
  have "length (filter (\<lambda>j. replicate n (replicate n False) ! i ! j) [0..<n]) = 0"
    if "i < n" for i
    using that by (simp add: filter_empty_conv)
  moreover have "length (filter (\<lambda>j. replicate n (replicate n False) ! j ! i) [0..<n]) = 0"
    if "i < n" for i
    using that by (simp add: filter_empty_conv)
  moreover have "length (filter (\<lambda>i. termination_p (replicate n \<lparr> termination_p = None, tx_count = 0, rx_count = 0 \<rparr> ! i) \<noteq> None) [0..<n]) = 0"
    by (simp add: filter_empty_conv)
  ultimately show ?thesis
    using assms
    by (simp add: mpf_inv_def mpf_fresh_def mpf_context_create_def shape_ok_def counts_ok_def
          count_ok_def ring_ok_def assoc_ok_def row_bits_def col_bits_def occupied_upto_def
          occupied_def [abs_def])
qed


lemma reset_outer_all_off:
  assumes sh: "shape_ok c" and co: "counts_ok c" and cn: "count_ok c" and as: "assoc_ok c"
    and a: "a < capacity c" and b: "b < capacity c"
  shows "\<not> matrix (reset_outer 0 0 c) ! a ! b"
proof
  let ?c = "reset_outer 0 0 c"
  assume on: "matrix ?c ! a ! b"
  have cl: "clears c ?c" using sh co by (intro reset_outer_clears clears_refl)
  from clears_assoc_ok [OF cl as] on a b have "occupied ?c a" "occupied ?c b"
    by (auto simp: assoc_ok_def clears_capacity [OF cl])
  then have oa: "occupied c a" and ob: "occupied c b"
    by (simp_all add: clears_occupied [OF cl])
  have k: "0 = occupied_upto c 0" by (simp add: occupied_upto_def)
  have cnt: "count c = occupied_upto c (capacity c)" using cn by (simp add: count_ok_def)
  show False
  proof (cases "a \<le> b")
    case True
    from reset_outer_cleared [OF sh co k cnt _ True b oa ob] on show False by simp
  next
    case False
    then have "b \<le> a" by simp
    from reset_outer_cleared [OF sh co k cnt _ this a ob oa] on show False by simp
  qed
qed

lemma counts_all_off:
  assumes "counts_ok c" "\<And>a b. a < capacity c \<Longrightarrow> b < capacity c \<Longrightarrow> \<not> matrix c ! a ! b"
    "i < capacity c"
  shows "tx_count (header c ! i) = 0 \<and> rx_count (header c ! i) = 0"
proof -
  have "row_bits c i = 0" "col_bits c i = 0"
    using assms(2,3) by (auto simp: row_bits_def col_bits_def filter_empty_conv)
  with assms(1,3) have "unat (tx_count (header c ! i)) = 0" "unat (rx_count (header c ! i)) = 0"
    by (auto simp: counts_ok_def)
  then show ?thesis by (simp add: unat_eq_0)
qed

lemma associations_reset_result:
  assumes inv: "mpf_inv s"
  defines "s' \<equiv> snd (mpf_context_associations_reset s)"
  shows "fst (mpf_context_associations_reset s)"
    and "mpf_objects (ctx s') = []"
    and "destroyed s' = destroyed s @ mpf_objects (ctx s)"
    and "\<And>a b. a < capacity (ctx s) \<Longrightarrow> b < capacity (ctx s) \<Longrightarrow> \<not> matrix (ctx s') ! a ! b"
    and "\<And>a. a < capacity (ctx s) \<Longrightarrow>
           tx_count (header (ctx s') ! a) = 0 \<and> rx_count (header (ctx s') ! a) = 0"
    and "mpf_context_associations_reset s' = (True, s')"
proof -
  let ?s1 = "mpf_context_topology_destroy s"
  let ?c1 = "ctx ?s1"
  have s': "s' = ?s1\<lparr> ctx := reset_outer 0 0 ?c1 \<rparr>"
    by (simp add: s'_def mpf_context_associations_reset_def Let_def)
  have 1: "mpf_inv ?s1" using inv by (rule topology_destroy_inv)
  then have sh: "shape_ok ?c1" and co: "counts_ok ?c1" and cn: "count_ok ?c1"
    and as: "assoc_ok ?c1"
    by (simp_all add: mpf_inv_def)
  have cl: "clears ?c1 (reset_outer 0 0 ?c1)"
    using sh co by (intro reset_outer_clears clears_refl)
  have cap: "capacity ?c1 = capacity (ctx s)" by (simp add: ctx_topology_destroy)
  show "fst (mpf_context_associations_reset s)"
    by (simp add: mpf_context_associations_reset_def Let_def)
  show obj: "mpf_objects (ctx s') = []"
    using cl by (simp add: s' clears_def frame_eq_def ctx_topology_destroy)
  show "destroyed s' = destroyed s @ mpf_objects (ctx s)"
    by (simp add: s' destroyed_topology_destroy)
  show off: "\<not> matrix (ctx s') ! a ! b" if "a < capacity (ctx s)" "b < capacity (ctx s)" for a b
    using reset_outer_all_off [OF sh co cn as, of a b] that by (simp add: s' cap)
  have co': "counts_ok (ctx s')" using cl by (simp add: s' clears_def)
  show zero: "tx_count (header (ctx s') ! a) = 0 \<and> rx_count (header (ctx s') ! a) = 0"
    if "a < capacity (ctx s)" for a
    using that off by (intro counts_all_off [OF co']) (simp_all add: s' cap)
  have "reset_outer 0 0 (ctx s') = ctx s'"
    using zero by (intro reset_outer_noop) (simp add: s' cap)
  moreover have "mpf_context_topology_destroy s' = s'"
    using obj by (simp add: mpf_context_topology_destroy_def)
  ultimately show "mpf_context_associations_reset s' = (True, s')"
    by (simp add: mpf_context_associations_reset_def Let_def)
qed

section \<open>Media context: the claims\<close>

subsection \<open>Concrete terminations and states\<close>

text \<open>
  Two unattached terminations, one that sends and receives and one that only sends, and the
  context of capacity 2 that holds two of the first kind, associated both ways.
\<close>

definition duplex :: mpf_termination where
  "duplex = \<lparr> slot = apr_size_max,
              audio_stream = Some \<lparr> mode = 3, rx_codec = None, tx_codec = None \<rparr> \<rparr>"

definition send_only :: mpf_termination where
  "send_only = \<lparr> slot = apr_size_max,
              audio_stream = Some \<lparr> mode = 1, rx_codec = None, tx_codec = None \<rparr> \<rparr>"

lemma list_update_numeral: "(x # xs)[numeral k := y] = x # xs[pred_numeral k := y]"
  by (simp add: numeral_eq_Suc)

lemma replicate_numeral: "replicate (numeral k) x = x # replicate (pred_numeral k) x"
  by (simp add: numeral_eq_Suc)

lemmas mpf_eval = mpf_fresh_def mpf_context_create_def mpf_context_termination_add_def
  termination_add_from.simps mpf_context_termination_subtract_def subtract_loop.simps
  mpf_context_association_add_def mpf_context_association_remove_def
  mpf_context_associations_reset_def mpf_context_topology_destroy_def
  reset_inner.simps reset_outer.simps item_set_def item_clear_def
  stream_mode_compatibility_check_def STREAM_MODE_SEND_def STREAM_MODE_RECEIVE_def
  size_inc_def size_dec_def Let_def list_update_numeral replicate_numeral

definition linked_pair :: mpf_state where
  "linked_pair =
     mpf_run [Add_termination 0, Add_termination 1, Add_association 0 1]
       (mpf_fresh 7 2 [] (\<lambda>_. duplex))"

lemma linked_pair_eq:
  "linked_pair =
     \<lparr> ctx = \<lparr> link = 7, capacity = 2, count = 2,
               header = [\<lparr> termination_p = Some 0, tx_count = 1, rx_count = 1 \<rparr>,
                         \<lparr> termination_p = Some 1, tx_count = 1, rx_count = 1 \<rparr>],
               matrix = [[False, True], [True, False]],
               mpf_objects = [] \<rparr>,
       ring = [7],
       terminations = (\<lambda>_. duplex)(0 := duplex\<lparr> slot := 0 \<rparr>, 1 := duplex\<lparr> slot := 1 \<rparr>),
       destroyed = [] \<rparr>"
  by (simp add: linked_pair_def mpf_eval duplex_def)


subsection \<open>The invariants after every operation\<close>





lemma mpf_run_fresh_inv:
  assumes "n \<le> 255" "lnk \<notin> set r"
  shows "mpf_inv (mpf_run xs (mpf_fresh lnk n r ts))"
proof -
  have "n \<le> apr_size_max" using assms(1) by (simp add: apr_size_max_def)
  then have "mpf_inv (mpf_fresh lnk n r ts)" using assms(2) by (rule mpf_fresh_inv)
  moreover have "capacity (ctx (mpf_fresh lnk n r ts)) \<le> 255"
    using assms(1) by (simp add: mpf_fresh_def mpf_context_create_def)
  ultimately show ?thesis by (rule mpf_run_inv)
qed



subsection \<open>Resetting the associations\<close>

definition all_clear :: "mpf_context \<Rightarrow> bool" where
  "all_clear c =
     ((\<forall>i < capacity c. \<forall>j < capacity c. \<not> matrix c ! i ! j) \<and>
      (\<forall>i < capacity c. tx_count (header c ! i) = 0 \<and> rx_count (header c ! i) = 0))"

text \<open>
  Claim C6. In a state that satisfies the invariants of the data model,
  \<open>mpf_context_associations_reset\<close> returns TRUE, has called the destroy hook of every
  compiled object and emptied the list of objects, leaves no matrix item set and every
  \<open>tx_count\<close> and \<open>rx_count\<close> zero, and a second run gives the same result and state as
  the first.
\<close>

theorem associations_reset_clears_and_is_idempotent:
  assumes "mpf_inv s"
  shows "fst (mpf_context_associations_reset s) \<and>
         mpf_objects (ctx (snd (mpf_context_associations_reset s))) = [] \<and>
         destroyed (snd (mpf_context_associations_reset s)) = destroyed s @ mpf_objects (ctx s) \<and>
         all_clear (ctx (snd (mpf_context_associations_reset s))) \<and>
         mpf_context_associations_reset (snd (mpf_context_associations_reset s)) =
           mpf_context_associations_reset s"
proof -
  let ?s' = "snd (mpf_context_associations_reset s)"
  have cap: "capacity (ctx ?s') = capacity (ctx s)"
    by (simp add: mpf_context_associations_reset_def Let_def ctx_topology_destroy)
  have "mpf_context_associations_reset s = (True, ?s')"
    using associations_reset_result(1) [OF assms] by (simp add: prod_eq_iff)
  with associations_reset_result [OF assms] show ?thesis
    by (simp add: all_clear_def cap)
qed

theorem associations_reset_clears_and_is_idempotent_witness:
  "mpf_inv linked_pair \<and>
   matrix (ctx linked_pair) = [[False, True], [True, False]] \<and>
   fst (mpf_context_associations_reset linked_pair) \<and>
   mpf_objects (ctx (snd (mpf_context_associations_reset linked_pair))) = [] \<and>
   all_clear (ctx (snd (mpf_context_associations_reset linked_pair))) \<and>
   matrix (ctx (snd (mpf_context_associations_reset linked_pair))) =
     [[False, False], [False, False]] \<and>
   mpf_context_associations_reset (snd (mpf_context_associations_reset linked_pair)) =
     mpf_context_associations_reset linked_pair"
proof -
  have inv: "mpf_inv linked_pair"
    unfolding linked_pair_def by (rule mpf_run_fresh_inv) simp_all
  have "matrix (ctx (snd (mpf_context_associations_reset linked_pair))) =
     [[False, False], [False, False]]"
    by (simp add: linked_pair_eq mpf_eval)
  with associations_reset_clears_and_is_idempotent [OF inv] inv show ?thesis
    by (simp add: linked_pair_eq)
qed

subsection \<open>Adding and removing an association; failing operations\<close>

text \<open>
  A termination is stored at its recorded slot; every slot of the context is taken.
\<close>

definition stored_at :: "mpf_state \<Rightarrow> termination_ptr \<Rightarrow> bool" where
  "stored_at s t =
     (slot (terminations s t) < capacity (ctx s) \<and>
      termination_p (header (ctx s) ! slot (terminations s t)) = Some t)"

definition slots_full :: "mpf_context \<Rightarrow> bool" where
  "slots_full c = (\<forall>i < capacity c. termination_p (header c ! i) \<noteq> None)"

definition unlinked_pair :: mpf_state where
  "unlinked_pair =
     mpf_run [Add_termination 0, Add_termination 1] (mpf_fresh 7 2 [] (\<lambda>_. duplex))"

lemma unlinked_pair_eq:
  "unlinked_pair =
     \<lparr> ctx = \<lparr> link = 7, capacity = 2, count = 2,
               header = [\<lparr> termination_p = Some 0, tx_count = 0, rx_count = 0 \<rparr>,
                         \<lparr> termination_p = Some 1, tx_count = 0, rx_count = 0 \<rparr>],
               matrix = [[False, False], [False, False]],
               mpf_objects = [] \<rparr>,
       ring = [7],
       terminations = (\<lambda>_. duplex)(0 := duplex\<lparr> slot := 0 \<rparr>, 1 := duplex\<lparr> slot := 1 \<rparr>),
       destroyed = [] \<rparr>"
  by (simp add: unlinked_pair_def mpf_eval duplex_def)

text \<open>
  Claim C4, amended. When both terminations are stored at their recorded slots and neither
  direction between them is associated yet, \<open>mpf_context_association_add\<close> followed by
  \<open>mpf_context_association_remove\<close> gives back the very state it started from: matrix,
  counters and all the rest. (An association that was already there is cleared by the
  removal, so the matrix does not return to it.)
\<close>

theorem association_add_then_remove_restores:
  assumes "shape_ok (ctx s)" and "stored_at s t1" and "stored_at s t2"
    and "\<not> matrix (ctx s) ! slot (terminations s t1) ! slot (terminations s t2)"
    and "\<not> matrix (ctx s) ! slot (terminations s t2) ! slot (terminations s t1)"
  shows "fst (mpf_context_association_add t1 t2 s) \<and>
         mpf_context_association_remove t1 t2 (snd (mpf_context_association_add t1 t2 s)) =
           (True, s)"
proof -
  let ?c = "ctx s" and ?i = "slot (terminations s t1)" and ?j = "slot (terminations s t2)"
  define c2 where "c2 = (let c1 = (if \<not> matrix ?c ! ?i ! ?j \<and>
                      stream_mode_compatibility_check (terminations s t1) (terminations s t2)
                   then item_set ?i ?j ?c else ?c)
                in if \<not> matrix c1 ! ?j ! ?i \<and>
                      stream_mode_compatibility_check (terminations s t2) (terminations s t1)
                   then item_set ?j ?i c1 else c1)"
  from assms(2,3) have st: "?i < capacity ?c" "?j < capacity ?c"
    "termination_p (header ?c ! ?i) = Some t1" "termination_p (header ?c ! ?j) = Some t2"
    by (simp_all add: stored_at_def)
  have add: "mpf_context_association_add t1 t2 s = (True, s\<lparr> ctx := c2 \<rparr>)"
    using st by (simp add: mpf_context_association_add_def c2_def Let_def)
  have c2: "capacity c2 = capacity ?c"
    "termination_p (header c2 ! a) = termination_p (header ?c ! a)" for a
    by (simp_all add: c2_def Let_def)
  have restore: "item_clear ?j ?i (item_clear ?i ?j c2) = ?c"
    unfolding c2_def using assms(1) st(1,2) assms(4,5) by (rule association_add_remove_lemma)
  have "mpf_context_association_remove t1 t2 (s\<lparr> ctx := c2 \<rparr>) = (True, s)"
    using st by (simp add: mpf_context_association_remove_def Let_def c2 restore)
  with add show ?thesis by simp
qed

theorem association_add_then_remove_restores_witness:
  "shape_ok (ctx unlinked_pair) \<and> stored_at unlinked_pair 0 \<and> stored_at unlinked_pair 1 \<and>
   \<not> matrix (ctx unlinked_pair) ! slot (terminations unlinked_pair 0) !
       slot (terminations unlinked_pair 1) \<and>
   \<not> matrix (ctx unlinked_pair) ! slot (terminations unlinked_pair 1) !
       slot (terminations unlinked_pair 0) \<and>
   snd (mpf_context_association_add 0 1 unlinked_pair) = linked_pair \<and>
   mpf_context_association_remove 0 1 (snd (mpf_context_association_add 0 1 unlinked_pair)) =
     (True, unlinked_pair)"
proof -
  have "mpf_inv unlinked_pair"
    unfolding unlinked_pair_def by (rule mpf_run_fresh_inv) simp_all
  then have sh: "shape_ok (ctx unlinked_pair)" by (simp add: mpf_inv_def)
  have st: "stored_at unlinked_pair 0" "stored_at unlinked_pair 1"
    by (simp_all add: stored_at_def unlinked_pair_eq)
  have off: "\<not> matrix (ctx unlinked_pair) ! slot (terminations unlinked_pair 0) !
       slot (terminations unlinked_pair 1)"
    "\<not> matrix (ctx unlinked_pair) ! slot (terminations unlinked_pair 1) !
       slot (terminations unlinked_pair 0)"
    by (simp_all add: unlinked_pair_eq)
  have "snd (mpf_context_association_add 0 1 unlinked_pair) = linked_pair"
    by (simp add: linked_pair_def unlinked_pair_def)
  with association_add_then_remove_restores [OF sh st off] sh st off show ?thesis
    by simp
qed

text \<open>
  Claim C4 as stated fails where the two terminations are already associated: adding changes
  nothing and removing clears both items.
\<close>

theorem association_add_then_remove_counterexample:
  "stored_at linked_pair 0 \<and> stored_at linked_pair 1 \<and>
   matrix (ctx linked_pair) = [[False, True], [True, False]] \<and>
   matrix (ctx (snd (mpf_context_association_remove 0 1
                       (snd (mpf_context_association_add 0 1 linked_pair))))) =
     [[False, False], [False, False]]"
  by (simp add: stored_at_def linked_pair_eq mpf_eval duplex_def)

definition send_pair :: mpf_state where
  "send_pair =
     mpf_run [Add_termination 0, Add_termination 1] (mpf_fresh 7 2 [] (\<lambda>_. send_only))"

lemma send_pair_eq:
  "send_pair =
     \<lparr> ctx = \<lparr> link = 7, capacity = 2, count = 2,
               header = [\<lparr> termination_p = Some 0, tx_count = 0, rx_count = 0 \<rparr>,
                         \<lparr> termination_p = Some 1, tx_count = 0, rx_count = 0 \<rparr>],
               matrix = [[False, False], [False, False]],
               mpf_objects = [] \<rparr>,
       ring = [7],
       terminations = (\<lambda>_. send_only)(0 := send_only\<lparr> slot := 0 \<rparr>,
                                             1 := send_only\<lparr> slot := 1 \<rparr>),
       destroyed = [] \<rparr>"
  by (simp add: send_pair_def mpf_eval send_only_def)

lemma termination_add_from_full:
  "(\<And>a. i \<le> a \<Longrightarrow> a < capacity (ctx s) \<Longrightarrow> termination_p (header (ctx s) ! a) \<noteq> None) \<Longrightarrow>
   termination_add_from i t s = (False, s)"
proof (induction i t s rule: termination_add_from.induct)
  case (1 i t s)
  show ?case
  proof (cases "i < capacity (ctx s)")
    case False
    then show ?thesis by (subst termination_add_from.simps) simp
  next
    case True
    have occ: "termination_p (header (ctx s) ! i) \<noteq> None"
      by (rule "1.prems") (simp_all add: True)
    have "termination_add_from (i + 1) t s = (False, s)"
      by (rule "1.IH" [OF refl True occ], rule "1.prems") simp_all
    with True occ show ?thesis by (subst termination_add_from.simps) (simp add: Let_def)
  qed
qed

text \<open>
  Claim C3, amended. \<open>mpf_context_termination_add\<close> on a context whose slots are all
  taken, and \<open>mpf_context_termination_subtract\<close>, \<open>mpf_context_association_add\<close> and
  \<open>mpf_context_association_remove\<close> on a termination that is not stored at its recorded
  slot, return FALSE and leave the state as it was. Incompatible stream modes are no failure:
  \<open>mpf_context_association_add\<close> returns TRUE, leaves the matrix item of an incompatible
  direction as it was, be it the direction from the first termination to the second or the
  direction back, and leaves the whole state as it was when both directions are
  incompatible.
\<close>

theorem predicate_failures_leave_the_state:
  "(slots_full (ctx s) \<longrightarrow> mpf_context_termination_add t s = (False, s)) \<and>
   (\<not> stored_at s t \<longrightarrow> mpf_context_termination_subtract t s = (False, s)) \<and>
   (\<not> (stored_at s t1 \<and> stored_at s t2) \<longrightarrow>
      mpf_context_association_add t1 t2 s = (False, s) \<and>
      mpf_context_association_remove t1 t2 s = (False, s)) \<and>
   (stored_at s t1 \<and> stored_at s t2 \<and>
    \<not> stream_mode_compatibility_check (terminations s t1) (terminations s t2) \<and>
    \<not> stream_mode_compatibility_check (terminations s t2) (terminations s t1) \<longrightarrow>
      mpf_context_association_add t1 t2 s = (True, s)) \<and>
   (stored_at s t1 \<and> stored_at s t2 \<and> shape_ok (ctx s) \<and>
    \<not> stream_mode_compatibility_check (terminations s t1) (terminations s t2) \<longrightarrow>
      fst (mpf_context_association_add t1 t2 s) \<and>
      matrix (ctx (snd (mpf_context_association_add t1 t2 s))) !
        slot (terminations s t1) ! slot (terminations s t2) =
      matrix (ctx s) ! slot (terminations s t1) ! slot (terminations s t2)) \<and>
   (stored_at s t1 \<and> stored_at s t2 \<and> shape_ok (ctx s) \<and>
    \<not> stream_mode_compatibility_check (terminations s t2) (terminations s t1) \<longrightarrow>
      fst (mpf_context_association_add t1 t2 s) \<and>
      matrix (ctx (snd (mpf_context_association_add t1 t2 s))) !
        slot (terminations s t2) ! slot (terminations s t1) =
      matrix (ctx s) ! slot (terminations s t2) ! slot (terminations s t1))"
proof (intro conjI impI)
  assume "slots_full (ctx s)"
  then show "mpf_context_termination_add t s = (False, s)"
    unfolding mpf_context_termination_add_def
    by (intro termination_add_from_full) (simp add: slots_full_def)
next
  assume "\<not> stored_at s t"
  then show "mpf_context_termination_subtract t s = (False, s)"
    by (auto simp: stored_at_def mpf_context_termination_subtract_def Let_def)
next
  assume "\<not> (stored_at s t1 \<and> stored_at s t2)"
  then show "mpf_context_association_add t1 t2 s = (False, s)"
    by (auto simp: stored_at_def mpf_context_association_add_def Let_def)
next
  assume "\<not> (stored_at s t1 \<and> stored_at s t2)"
  then show "mpf_context_association_remove t1 t2 s = (False, s)"
    by (auto simp: stored_at_def mpf_context_association_remove_def Let_def)
next
  assume "stored_at s t1 \<and> stored_at s t2 \<and>
    \<not> stream_mode_compatibility_check (terminations s t1) (terminations s t2) \<and>
    \<not> stream_mode_compatibility_check (terminations s t2) (terminations s t1)"
  then show "mpf_context_association_add t1 t2 s = (True, s)"
    by (simp add: stored_at_def mpf_context_association_add_def Let_def)
next
  assume a: "stored_at s t1 \<and> stored_at s t2 \<and> shape_ok (ctx s) \<and>
    \<not> stream_mode_compatibility_check (terminations s t1) (terminations s t2)"
  then show "fst (mpf_context_association_add t1 t2 s)"
    by (simp add: stored_at_def mpf_context_association_add_def Let_def)
  show "matrix (ctx (snd (mpf_context_association_add t1 t2 s))) !
        slot (terminations s t1) ! slot (terminations s t2) =
      matrix (ctx s) ! slot (terminations s t1) ! slot (terminations s t2)"
  proof (cases "slot (terminations s t1) = slot (terminations s t2)")
    case True
    from a have "termination_p (header (ctx s) ! slot (terminations s t1)) = Some t1"
      and "termination_p (header (ctx s) ! slot (terminations s t2)) = Some t2"
      by (simp_all add: stored_at_def)
    then have "t1 = t2" unfolding True by simp
    with a show ?thesis
      by (simp add: stored_at_def mpf_context_association_add_def Let_def)
  next
    case False
    with a show ?thesis
      by (simp add: stored_at_def mpf_context_association_add_def Let_def matrix_item_set)
  qed
next
  assume a: "stored_at s t1 \<and> stored_at s t2 \<and> shape_ok (ctx s) \<and>
    \<not> stream_mode_compatibility_check (terminations s t2) (terminations s t1)"
  then show "fst (mpf_context_association_add t1 t2 s)"
    by (simp add: stored_at_def mpf_context_association_add_def Let_def)
  show "matrix (ctx (snd (mpf_context_association_add t1 t2 s))) !
        slot (terminations s t2) ! slot (terminations s t1) =
      matrix (ctx s) ! slot (terminations s t2) ! slot (terminations s t1)"
  proof (cases "slot (terminations s t1) = slot (terminations s t2)")
    case True
    from a have "termination_p (header (ctx s) ! slot (terminations s t1)) = Some t1"
      and "termination_p (header (ctx s) ! slot (terminations s t2)) = Some t2"
      by (simp_all add: stored_at_def)
    then have "t1 = t2" unfolding True by simp
    with a show ?thesis
      by (simp add: stored_at_def mpf_context_association_add_def Let_def)
  next
    case False
    with a show ?thesis
      by (simp add: stored_at_def mpf_context_association_add_def Let_def matrix_item_set)
  qed
qed

text \<open>
  Two terminations of which the first sends and receives and the second only sends: the
  first may be the source of the second, the second may not be the source of the first.
\<close>

definition mixed_pair :: mpf_state where
  "mixed_pair =
     mpf_run [Add_termination 0, Add_termination 1]
       (mpf_fresh 7 2 [] (\<lambda>t. if t = 0 then duplex else send_only))"

lemma mixed_pair_eq:
  "mixed_pair =
     \<lparr> ctx = \<lparr> link = 7, capacity = 2, count = 2,
               header = [\<lparr> termination_p = Some 0, tx_count = 0, rx_count = 0 \<rparr>,
                         \<lparr> termination_p = Some 1, tx_count = 0, rx_count = 0 \<rparr>],
               matrix = [[False, False], [False, False]],
               mpf_objects = [] \<rparr>,
       ring = [7],
       terminations = (\<lambda>t. if t = 0 then duplex else send_only)
                        (0 := duplex\<lparr> slot := 0 \<rparr>, 1 := send_only\<lparr> slot := 1 \<rparr>),
       destroyed = [] \<rparr>"
  by (simp add: mixed_pair_def mpf_eval duplex_def send_only_def)

theorem predicate_failures_leave_the_state_witness:
  "slots_full (ctx unlinked_pair) \<and>
   mpf_context_termination_add 5 unlinked_pair = (False, unlinked_pair) \<and>
   \<not> stored_at unlinked_pair 5 \<and>
   mpf_context_termination_subtract 5 unlinked_pair = (False, unlinked_pair) \<and>
   \<not> (stored_at unlinked_pair 0 \<and> stored_at unlinked_pair 5) \<and>
   mpf_context_association_add 0 5 unlinked_pair = (False, unlinked_pair) \<and>
   mpf_context_association_remove 0 5 unlinked_pair = (False, unlinked_pair) \<and>
   stored_at send_pair 0 \<and> stored_at send_pair 1 \<and> shape_ok (ctx send_pair) \<and>
   \<not> stream_mode_compatibility_check (terminations send_pair 0) (terminations send_pair 1) \<and>
   \<not> stream_mode_compatibility_check (terminations send_pair 1) (terminations send_pair 0) \<and>
   mpf_context_association_add 0 1 send_pair = (True, send_pair) \<and>
   matrix (ctx (snd (mpf_context_association_add 0 1 send_pair))) !
     slot (terminations send_pair 0) ! slot (terminations send_pair 1) =
   matrix (ctx send_pair) ! slot (terminations send_pair 0) ! slot (terminations send_pair 1) \<and>
   stored_at mixed_pair 0 \<and> stored_at mixed_pair 1 \<and> shape_ok (ctx mixed_pair) \<and>
   stream_mode_compatibility_check (terminations mixed_pair 0) (terminations mixed_pair 1) \<and>
   \<not> stream_mode_compatibility_check (terminations mixed_pair 1) (terminations mixed_pair 0) \<and>
   fst (mpf_context_association_add 0 1 mixed_pair) \<and>
   matrix (ctx (snd (mpf_context_association_add 0 1 mixed_pair))) !
     slot (terminations mixed_pair 1) ! slot (terminations mixed_pair 0) =
   matrix (ctx mixed_pair) ! slot (terminations mixed_pair 1) ! slot (terminations mixed_pair 0) \<and>
   matrix (ctx (snd (mpf_context_association_add 0 1 mixed_pair))) = [[False, True], [False, False]]"
proof -
  have full: "slots_full (ctx unlinked_pair)"
    by (simp add: slots_full_def unlinked_pair_eq less_Suc_eq numeral_2_eq_2)
  have n5: "\<not> stored_at unlinked_pair 5"
    by (simp add: stored_at_def unlinked_pair_eq duplex_def apr_size_max_def)
  have "mpf_inv send_pair"
    unfolding send_pair_def by (rule mpf_run_fresh_inv) simp_all
  then have sh: "shape_ok (ctx send_pair)" by (simp add: mpf_inv_def)
  have st: "stored_at send_pair 0" "stored_at send_pair 1"
    by (simp_all add: stored_at_def send_pair_eq)
  have inc: "\<not> stream_mode_compatibility_check (terminations send_pair 0) (terminations send_pair 1)"
    "\<not> stream_mode_compatibility_check (terminations send_pair 1) (terminations send_pair 0)"
    by (simp_all add: send_pair_eq send_only_def stream_mode_compatibility_check_def
          STREAM_MODE_RECEIVE_def)
  have "mpf_inv mixed_pair"
    unfolding mixed_pair_def by (rule mpf_run_fresh_inv) simp_all
  then have shm: "shape_ok (ctx mixed_pair)" by (simp add: mpf_inv_def)
  have stm: "stored_at mixed_pair 0" "stored_at mixed_pair 1"
    by (simp_all add: stored_at_def mixed_pair_eq)
  have incm: "stream_mode_compatibility_check (terminations mixed_pair 0) (terminations mixed_pair 1)"
    "\<not> stream_mode_compatibility_check (terminations mixed_pair 1) (terminations mixed_pair 0)"
    by (simp_all add: mixed_pair_eq send_only_def duplex_def stream_mode_compatibility_check_def
          STREAM_MODE_RECEIVE_def STREAM_MODE_SEND_def)
  have res: "matrix (ctx (snd (mpf_context_association_add 0 1 mixed_pair))) =
      [[False, True], [False, False]]"
    by (simp add: mixed_pair_eq mpf_eval duplex_def send_only_def)
  show ?thesis
    using predicate_failures_leave_the_state [of unlinked_pair 5 0 5]
      predicate_failures_leave_the_state [of send_pair 0 0 1]
      predicate_failures_leave_the_state [of mixed_pair 0 0 1]
      full n5 sh st inc shm stm incm res
    by simp
qed

text \<open>
  Claim C3 as stated fails for incompatible modes: the call returns TRUE, not FALSE.
\<close>

theorem predicate_failures_counterexample:
  "stored_at send_pair 0 \<and> stored_at send_pair 1 \<and>
   \<not> stream_mode_compatibility_check (terminations send_pair 0) (terminations send_pair 1) \<and>
   \<not> stream_mode_compatibility_check (terminations send_pair 1) (terminations send_pair 0) \<and>
   fst (mpf_context_association_add 0 1 send_pair) = True"
  by (simp add: stored_at_def send_pair_eq send_only_def mpf_eval)

subsection \<open>A context of capacity 256\<close>













section \<open>Media context: building a connection\<close>

text \<open>
  \<open>mpf_context_connection_create\<close> returns the object it builds, or NULL, and may log one
  warning; the result here is the object, if any, with the warnings logged. A termination
  argument may be NULL. \<open>mpf_codec_descriptors_match\<close> is not among the sources and is a
  parameter.

  Modelled from the spec: the constructors \<open>mpf_null_bridge_create\<close>,
  \<open>mpf_bridge_create\<close>, \<open>mpf_decoder_create\<close> and \<open>mpf_encoder_create\<close> are not among the
  sources; they build the null bridge or the bridge between their two ends and wrap a stream
  in a decoder or an encoder.
\<close>

definition resampling_warning :: string where
  "resampling_warning =
     ''Resampling is not supported now. Try to configure and use the same sampling rate on both ends''"

text \<open>\<open>codec->vtable && codec->vtable->decode\<close>, and the same for \<open>encode\<close>.\<close>

definition has_decode :: "mpf_codec \<Rightarrow> bool" where
  "has_decode c = (case vtable c of None \<Rightarrow> False | Some v \<Rightarrow> decode v)"

definition has_encode :: "mpf_codec \<Rightarrow> bool" where
  "has_encode c = (case vtable c of None \<Rightarrow> False | Some v \<Rightarrow> encode v)"

definition mpf_context_connection_create ::
  "(mpf_codec_descriptor \<Rightarrow> mpf_codec_descriptor \<Rightarrow> bool) \<Rightarrow>
   mpf_termination option \<Rightarrow> mpf_termination option \<Rightarrow> mpf_object option \<times> string list" where
  "mpf_context_connection_create mpf_codec_descriptors_match src_termination sink_termination =
     (case src_termination of
        None \<Rightarrow> (None, [])
      | Some src \<Rightarrow>
     (case sink_termination of
        None \<Rightarrow> (None, [])
      | Some snk \<Rightarrow>
     (case audio_stream src of
        None \<Rightarrow> (None, [])
      | Some source \<Rightarrow>
     (case audio_stream snk of
        None \<Rightarrow> (None, [])
      | Some sink \<Rightarrow>
          if (mode source AND STREAM_MODE_RECEIVE) = STREAM_MODE_RECEIVE \<and>
             (mode sink AND STREAM_MODE_SEND) = STREAM_MODE_SEND
          then
            (case rx_codec source of
               None \<Rightarrow> (None, [])
             | Some rx \<Rightarrow>
            (case tx_codec sink of
               None \<Rightarrow> (None, [])
             | Some tx \<Rightarrow>
                 if mpf_codec_descriptors_match (codec_descriptor rx) (codec_descriptor tx)
                 then (Some (Null_bridge source sink), [])
                 else if sampling_rate (codec_descriptor rx) \<noteq> sampling_rate (codec_descriptor tx)
                 then (None, [resampling_warning])
                 else (Some (Bridge (if has_decode rx then Decoder source else Plain source)
                                    (if has_encode tx then Encoder sink else Plain sink)), [])))
          else (None, [])))))"

text \<open>
  Both terminations and their streams are there, the source receives, the sink sends, and
  the two codecs are there.
\<close>

definition connectable ::
  "mpf_termination option \<Rightarrow> mpf_termination option \<Rightarrow>
   mpf_audio_stream \<Rightarrow> mpf_audio_stream \<Rightarrow> mpf_codec \<Rightarrow> mpf_codec \<Rightarrow> bool" where
  "connectable src_termination sink_termination source sink rx tx =
     (\<exists>src snk. src_termination = Some src \<and> sink_termination = Some snk \<and>
        audio_stream src = Some source \<and> audio_stream snk = Some sink \<and>
        (mode source AND STREAM_MODE_RECEIVE) = STREAM_MODE_RECEIVE \<and>
        (mode sink AND STREAM_MODE_SEND) = STREAM_MODE_SEND \<and>
        rx_codec source = Some rx \<and> tx_codec sink = Some tx)"

text \<open>
  Claim C5. \<open>mpf_context_connection_create\<close> builds no object unless the source stream
  mode contains RECEIVE, the sink stream mode contains SEND and both the rx and the tx codec
  are present. When they are, it builds a null bridge if the two descriptors match; no
  object, with a warning logged, if they do not match and the sampling rates differ; and
  otherwise a bridge whose source is wrapped in a decoder iff the rx codec has a decode hook
  and whose sink is wrapped in an encoder iff the tx codec has an encode hook.
\<close>

theorem connection_create_cases:
  "(fst (mpf_context_connection_create m src_termination sink_termination) \<noteq> None \<longrightarrow>
      (\<exists>source sink rx tx. connectable src_termination sink_termination source sink rx tx)) \<and>
   (connectable src_termination sink_termination source sink rx tx \<longrightarrow>
      mpf_context_connection_create m src_termination sink_termination =
        (if m (codec_descriptor rx) (codec_descriptor tx) then (Some (Null_bridge source sink), [])
         else if sampling_rate (codec_descriptor rx) \<noteq> sampling_rate (codec_descriptor tx)
         then (None, [resampling_warning])
         else (Some (Bridge (if has_decode rx then Decoder source else Plain source)
                            (if has_encode tx then Encoder sink else Plain sink)), [])))"
proof (intro conjI impI)
  assume "fst (mpf_context_connection_create m src_termination sink_termination) \<noteq> None"
  then show "\<exists>source sink rx tx. connectable src_termination sink_termination source sink rx tx"
    by (auto simp: mpf_context_connection_create_def connectable_def
          split: option.splits if_splits)
next
  assume "connectable src_termination sink_termination source sink rx tx"
  then show "mpf_context_connection_create m src_termination sink_termination =
        (if m (codec_descriptor rx) (codec_descriptor tx) then (Some (Null_bridge source sink), [])
         else if sampling_rate (codec_descriptor rx) \<noteq> sampling_rate (codec_descriptor tx)
         then (None, [resampling_warning])
         else (Some (Bridge (if has_decode rx then Decoder source else Plain source)
                            (if has_encode tx then Encoder sink else Plain sink)), []))"
    by (auto simp: mpf_context_connection_create_def connectable_def)
qed

text \<open>Three codecs, and a termination that sends and receives with one of them.\<close>

definition pcmu8 :: mpf_codec where
  "pcmu8 = \<lparr> codec_descriptor = \<lparr> codec_name = ''PCMU'', sampling_rate = 8000, channel_count = 1 \<rparr>,
             vtable = Some \<lparr> decode = True, encode = True \<rparr> \<rparr>"

definition lpcm8 :: mpf_codec where
  "lpcm8 = \<lparr> codec_descriptor = \<lparr> codec_name = ''LPCM'', sampling_rate = 8000, channel_count = 1 \<rparr>,
             vtable = None \<rparr>"

definition pcma16 :: mpf_codec where
  "pcma16 = \<lparr> codec_descriptor = \<lparr> codec_name = ''PCMA'', sampling_rate = 16000, channel_count = 1 \<rparr>,
              vtable = Some \<lparr> decode = True, encode = True \<rparr> \<rparr>"

definition stream_of :: "mpf_codec \<Rightarrow> mpf_audio_stream" where
  "stream_of c = \<lparr> mode = 3, rx_codec = Some c, tx_codec = Some c \<rparr>"

definition termination_of :: "mpf_codec \<Rightarrow> mpf_termination option" where
  "termination_of c = Some \<lparr> slot = 0, audio_stream = Some (stream_of c) \<rparr>"

lemma connectable_streams: "connectable (termination_of a) (termination_of b) (stream_of a) (stream_of b) a b"
  by (simp add: connectable_def termination_of_def stream_of_def STREAM_MODE_SEND_def
        STREAM_MODE_RECEIVE_def)

theorem connection_create_cases_witness:
  "fst (mpf_context_connection_create (=) (termination_of pcmu8) (termination_of pcmu8)) \<noteq> None \<and>
   (\<exists>source sink rx tx.
      connectable (termination_of pcmu8) (termination_of pcmu8) source sink rx tx) \<and>
   connectable (termination_of pcmu8) (termination_of pcmu8)
     (stream_of pcmu8) (stream_of pcmu8) pcmu8 pcmu8 \<and>
   mpf_context_connection_create (=) (termination_of pcmu8) (termination_of pcmu8) =
     (Some (Null_bridge (stream_of pcmu8) (stream_of pcmu8)), []) \<and>
   connectable (termination_of pcmu8) (termination_of pcma16)
     (stream_of pcmu8) (stream_of pcma16) pcmu8 pcma16 \<and>
   mpf_context_connection_create (=) (termination_of pcmu8) (termination_of pcma16) =
     (None, [resampling_warning]) \<and>
   connectable (termination_of pcmu8) (termination_of lpcm8)
     (stream_of pcmu8) (stream_of lpcm8) pcmu8 lpcm8 \<and>
   mpf_context_connection_create (=) (termination_of pcmu8) (termination_of lpcm8) =
     (Some (Bridge (Decoder (stream_of pcmu8)) (Plain (stream_of lpcm8))), []) \<and>
   mpf_context_connection_create (=) (termination_of lpcm8) (termination_of pcmu8) =
     (Some (Bridge (Plain (stream_of lpcm8)) (Encoder (stream_of pcmu8))), [])"
proof -
  have 1: "mpf_context_connection_create (=) (termination_of pcmu8) (termination_of pcmu8) =
     (Some (Null_bridge (stream_of pcmu8) (stream_of pcmu8)), [])"
    using connection_create_cases [of "(=)" "termination_of pcmu8" "termination_of pcmu8"
        "stream_of pcmu8" "stream_of pcmu8" pcmu8 pcmu8]
    by (simp add: connectable_streams)
  have 2: "mpf_context_connection_create (=) (termination_of pcmu8) (termination_of pcma16) =
     (None, [resampling_warning])"
    using connection_create_cases [of "(=)" "termination_of pcmu8" "termination_of pcma16"
        "stream_of pcmu8" "stream_of pcma16" pcmu8 pcma16]
    by (simp add: connectable_streams) (simp add: pcmu8_def pcma16_def)
  have 3: "mpf_context_connection_create (=) (termination_of pcmu8) (termination_of lpcm8) =
     (Some (Bridge (Decoder (stream_of pcmu8)) (Plain (stream_of lpcm8))), [])"
    using connection_create_cases [of "(=)" "termination_of pcmu8" "termination_of lpcm8"
        "stream_of pcmu8" "stream_of lpcm8" pcmu8 lpcm8]
    by (simp add: connectable_streams)
       (simp add: pcmu8_def lpcm8_def has_decode_def has_encode_def)
  have 4: "mpf_context_connection_create (=) (termination_of lpcm8) (termination_of pcmu8) =
     (Some (Bridge (Plain (stream_of lpcm8)) (Encoder (stream_of pcmu8))), [])"
    using connection_create_cases [of "(=)" "termination_of lpcm8" "termination_of pcmu8"
        "stream_of lpcm8" "stream_of pcmu8" lpcm8 pcmu8]
    by (simp add: connectable_streams)
       (simp add: pcmu8_def lpcm8_def has_decode_def has_encode_def)
  have 5: "\<exists>source sink rx tx.
      connectable (termination_of pcmu8) (termination_of pcmu8) source sink rx tx"
    using connection_create_cases [of "(=)" "termination_of pcmu8" "termination_of pcmu8"] 1
    by simp
  from 1 2 3 4 5 show ?thesis by (simp add: connectable_streams)
qed

section \<open>Server session: the orchestrator of mrcp_server_session.c\<close>

subsection \<open>Data model\<close>

text \<open>
  Modelled from the spec: the enumerations below are declared in headers that are not among
  the sources. The protocol versions, the answer status codes, the session states, the kinds
  of MRCP message and the media engine commands are the ones the specification lists.
\<close>

datatype mrcp_version = MRCP_VERSION_1 | MRCP_VERSION_2

datatype mrcp_session_status =
  MRCP_SESSION_STATUS_OK
  | MRCP_SESSION_STATUS_NO_SUCH_RESOURCE
  | MRCP_SESSION_STATUS_UNACCEPTABLE_RESOURCE
  | MRCP_SESSION_STATUS_UNAVAILABLE_RESOURCE

datatype mrcp_server_session_state =
  SESSION_STATE_NONE
  | SESSION_STATE_ANSWERING
  | SESSION_STATE_DEACTIVATING
  | SESSION_STATE_TERMINATING

datatype mrcp_message_type =
  MRCP_MESSAGE_TYPE_REQUEST
  | MRCP_MESSAGE_TYPE_RESPONSE
  | MRCP_MESSAGE_TYPE_EVENT

datatype mpf_command =
  MPF_ADD_TERMINATION
  | MPF_MODIFY_TERMINATION
  | MPF_SUBTRACT_TERMINATION
  | MPF_ADD_ASSOCIATION
  | MPF_REMOVE_ASSOCIATION
  | MPF_RESET_ASSOCIATIONS
  | MPF_APPLY_TOPOLOGY
  | MPF_DESTROY_TOPOLOGY

datatype mpf_message_kind = MPF_MESSAGE_TYPE_RESPONSE | MPF_MESSAGE_TYPE_EVENT

text \<open>
  A handle is the address of an object of a collaborator (a resource, a control channel, a
  state machine, a media context) that the session only passes on. An \<open>apt_str_t\<close> whose
  buffer may be NULL is a \<open>string option\<close>.
\<close>

type_synonym handle = nat

record mrcp_message =
  message_type :: mrcp_message_type
  channel_resource_name :: "string option"
  request_id :: nat

record mrcp_control_descriptor =
  cd_resource_name :: "string option"
  cmid :: nat
  session_id :: string
  port :: nat

record mpf_rtp_media_descriptor =
  md_ip :: string
  md_ext_ip :: string
  md_mid :: nat
  md_mode :: "32 word"

record mpf_rtp_termination_descriptor =
  audio_local :: "mpf_rtp_media_descriptor option"
  audio_remote :: "mpf_rtp_media_descriptor option"

record mrcp_session_descriptor =
  origin :: string
  ip :: string
  ext_ip :: string
  resource_name :: "string option"
  resource_state :: bool
  status :: mrcp_session_status
  control_media_arr :: "mrcp_control_descriptor option list"
  audio_media_arr :: "mpf_rtp_media_descriptor option list"
  video_media_arr :: "mpf_rtp_media_descriptor option list"

record mrcp_engine_channel =
  ec_termination :: "termination_ptr option"

text \<open>
  \<open>mrcp_channel_t\<close>. The channels of a session live in its array \<open>channels\<close>, which only
  grows; a channel pointer is the index of the channel there.
\<close>

record mrcp_channel =
  ch_resource_name :: "string option"
  resource :: "handle option"
  control_channel :: "handle option"
  engine_channel :: "mrcp_engine_channel option"
  state_machine :: "handle option"
  ch_id :: nat
  ch_cmid :: nat
  waiting_for_channel :: bool
  waiting_for_termination :: bool

record mrcp_termination_slot =
  slot_termination :: "termination_ptr option"
  slot_id :: nat
  mid :: nat
  slot_channels :: "nat list option"
  waiting :: bool

datatype mrcp_signaling_message =
  SIGNALING_MESSAGE_OFFER mrcp_session_descriptor
  | SIGNALING_MESSAGE_CONTROL "nat option" mrcp_message
  | SIGNALING_MESSAGE_TERMINATE

text \<open>A command added to the batch for the media engine, and a message it sends back.\<close>

datatype mpf_request =
  Topology_request mpf_command
  | Termination_request mpf_command "termination_ptr option"
      "mpf_rtp_termination_descriptor option"
  | Assoc_request mpf_command "termination_ptr option" "termination_ptr option"

record mpf_message =
  mpf_message_type :: mpf_message_kind
  command_id :: mpf_command
  has_context :: bool
  m_termination :: "termination_ptr option"
  m_descriptor :: "mpf_rtp_termination_descriptor option"

text \<open>
  What the session does to its collaborators, in the order it does it: every call of a
  function that is not in this file, with the arguments that matter.
\<close>

datatype action =
  Session_add
  | Session_remove
  | Session_answer mrcp_session_descriptor
  | Session_control_response mrcp_message
  | Session_terminate_response
  | Context_create
  | Termination_create
  | Mpf_message_send "mpf_request list"
  | Control_channel_add nat mrcp_control_descriptor
  | Control_channel_modify nat mrcp_control_descriptor
  | Control_channel_remove nat
  | Control_channel_destroy nat
  | Control_message_send nat mrcp_message
  | Engine_channel_open nat
  | Engine_channel_close nat
  | Engine_channel_destroy nat
  | Engine_channel_request nat mrcp_message
  | State_machine_update nat mrcp_message
  | State_machine_deactivate nat

text \<open>
  \<open>mrcp_server_session_t\<close>, with the protocol version of its signaling agent, the actions
  done so far and the number of answers taken from the collaborators so far.
  \<open>subrequest_count\<close> is an \<open>apr_size_t\<close>.
\<close>

record mrcp_server_session =
  sid :: string
  version :: mrcp_version
  media_context :: "handle option"
  s_terminations :: "mrcp_termination_slot list"
  channels :: "mrcp_channel list"
  active_request :: "mrcp_signaling_message option"
  request_queue :: "mrcp_signaling_message list"
  offer :: "mrcp_session_descriptor option"
  answer :: "mrcp_session_descriptor option"
  mpf_task_msg :: "mpf_request list"
  subrequest_count :: nat
  state :: mrcp_server_session_state
  out :: "action list"
  calls :: nat

text \<open>
  The collaborators. What a call returns is not decided by the session: \<open>ok n\<close> is the
  \<open>apt_bool_t\<close> the \<open>n\<close>-th call returns, and the objects a call may create (or fail to
  create, returning NULL) are given the same way. The tables of the profile are fixed.
  \<open>apt_string_compare\<close> is not among the sources and is a parameter.
\<close>

record env =
  ok :: "nat \<Rightarrow> bool"
  resource_get :: "string \<Rightarrow> handle option"
  engine_table :: "string \<Rightarrow> handle option"
  control_channel_create :: "nat \<Rightarrow> handle option"
  create_server_state_machine :: "nat \<Rightarrow> handle option"
  engine_channel_virtual_create :: "nat \<Rightarrow> mrcp_engine_channel option"
  termination_create :: "nat \<Rightarrow> termination_ptr option"
  stream_mode :: "termination_ptr \<Rightarrow> 32 word option"
  apt_string_compare :: "string option \<Rightarrow> string option \<Rightarrow> bool"
  unique_id :: string
  context_create :: handle

subsection \<open>Calls to the collaborators\<close>

definition emit :: "action \<Rightarrow> mrcp_server_session \<Rightarrow> mrcp_server_session" where
  "emit a s = s\<lparr> out := out s @ [a] \<rparr>"

text \<open>A call that returns an \<open>apt_bool_t\<close>: the action is done and the answer taken.\<close>

definition call :: "env \<Rightarrow> action \<Rightarrow> mrcp_server_session \<Rightarrow> bool \<times> mrcp_server_session" where
  "call e a s = (ok e (calls s), s\<lparr> out := out s @ [a], calls := calls s + 1 \<rparr>)"

text \<open>
  Modelled from the spec: \<open>mpf_engine_topology_message_add\<close>,
  \<open>mpf_engine_termination_message_add\<close> and \<open>mpf_engine_assoc_message_add\<close> are not among
  the sources. A command is added to the batch of the session when the call returns TRUE,
  and \<open>mpf_engine_message_send\<close> sends the batch in one call and leaves it empty.
\<close>

definition mpf_engine_message_add ::
  "env \<Rightarrow> mpf_request \<Rightarrow> mrcp_server_session \<Rightarrow> bool \<times> mrcp_server_session" where
  "mpf_engine_message_add e r s =
     (if ok e (calls s)
      then (True, s\<lparr> mpf_task_msg := mpf_task_msg s @ [r], calls := calls s + 1 \<rparr>)
      else (False, s\<lparr> calls := calls s + 1 \<rparr>))"

definition mpf_engine_message_send :: "mrcp_server_session \<Rightarrow> mrcp_server_session" where
  "mpf_engine_message_send s = (emit (Mpf_message_send (mpf_task_msg s)) s)\<lparr> mpf_task_msg := [] \<rparr>"

text \<open>
  Modelled from the spec: the accessors of the media arrays of a session descriptor are
  declared in a header that is not among the sources. A get outside the array gives NULL,
  a set outside the array does nothing.
\<close>

definition mrcp_session_control_media_get ::
  "mrcp_session_descriptor \<Rightarrow> nat \<Rightarrow> mrcp_control_descriptor option" where
  "mrcp_session_control_media_get d i =
     (if i < length (control_media_arr d) then control_media_arr d ! i else None)"

definition mrcp_session_control_media_set ::
  "mrcp_session_descriptor \<Rightarrow> nat \<Rightarrow> mrcp_control_descriptor \<Rightarrow> mrcp_session_descriptor" where
  "mrcp_session_control_media_set d i m =
     (if i < length (control_media_arr d)
      then d\<lparr> control_media_arr := (control_media_arr d)[i := Some m] \<rparr> else d)"

definition mrcp_session_audio_media_get ::
  "mrcp_session_descriptor \<Rightarrow> nat \<Rightarrow> mpf_rtp_media_descriptor option" where
  "mrcp_session_audio_media_get d i =
     (if i < length (audio_media_arr d) then audio_media_arr d ! i else None)"

definition mrcp_session_audio_media_set ::
  "mrcp_session_descriptor \<Rightarrow> nat \<Rightarrow> mpf_rtp_media_descriptor \<Rightarrow> mrcp_session_descriptor" where
  "mrcp_session_audio_media_set d i m =
     (if i < length (audio_media_arr d)
      then d\<lparr> audio_media_arr := (audio_media_arr d)[i := Some m] \<rparr> else d)"

subsection \<open>Session, counter and state\<close>

definition mrcp_server_session_create :: "mrcp_version \<Rightarrow> mrcp_server_session" where
  "mrcp_server_session_create v =
     \<lparr> sid = [], version = v, media_context = None, s_terminations = [], channels = [],
       active_request = None, request_queue = [], offer = None, answer = None,
       mpf_task_msg = [], subrequest_count = 0, state = SESSION_STATE_NONE,
       out = [], calls = 0 \<rparr>"

definition mrcp_server_session_state_set ::
  "mrcp_server_session_state \<Rightarrow> mrcp_server_session \<Rightarrow> mrcp_server_session" where
  "mrcp_server_session_state_set st s =
     (if subrequest_count s \<noteq> 0 then s\<lparr> subrequest_count := 0 \<rparr> else s)\<lparr> state := st \<rparr>"

definition mrcp_server_session_subrequest_add :: "mrcp_server_session \<Rightarrow> mrcp_server_session" where
  "mrcp_server_session_subrequest_add s =
     s\<lparr> subrequest_count := size_inc (subrequest_count s) \<rparr>"

definition channel_write ::
  "nat \<Rightarrow> (mrcp_channel \<Rightarrow> mrcp_channel) \<Rightarrow> mrcp_server_session \<Rightarrow> mrcp_server_session" where
  "channel_write c f s = s\<lparr> channels := (channels s)[c := f (channels s ! c)] \<rparr>"

definition termination_slot_write ::
  "nat \<Rightarrow> (mrcp_termination_slot \<Rightarrow> mrcp_termination_slot) \<Rightarrow> mrcp_server_session \<Rightarrow>
   mrcp_server_session" where
  "termination_slot_write i f s = s\<lparr> s_terminations := (s_terminations s)[i := f (s_terminations s ! i)] \<rparr>"

text \<open>The first index whose element satisfies the test, as the search loops return it.\<close>

primrec find_index :: "('a \<Rightarrow> bool) \<Rightarrow> 'a list \<Rightarrow> nat option" where
  "find_index P [] = None"
| "find_index P (x # xs) = (if P x then Some 0 else map_option Suc (find_index P xs))"

definition mrcp_server_rtp_termination_find ::
  "mrcp_server_session \<Rightarrow> termination_ptr option \<Rightarrow> nat option" where
  "mrcp_server_rtp_termination_find s t =
     find_index (\<lambda>slot. slot_termination slot = t) (s_terminations s)"

definition mrcp_server_channel_termination_find ::
  "mrcp_server_session \<Rightarrow> termination_ptr option \<Rightarrow> nat option" where
  "mrcp_server_channel_termination_find s t =
     find_index (\<lambda>channel. case engine_channel channel of
                    None \<Rightarrow> False | Some ec \<Rightarrow> ec_termination ec = t) (channels s)"

definition mrcp_server_channel_find ::
  "env \<Rightarrow> mrcp_server_session \<Rightarrow> string option \<Rightarrow> nat option" where
  "mrcp_server_channel_find e s name =
     find_index (\<lambda>channel. apt_string_compare e (ch_resource_name channel) name) (channels s)"

subsection \<open>Terminating\<close>

definition terminate_send_channel :: "nat \<Rightarrow> mrcp_server_session \<Rightarrow> mrcp_server_session" where
  "terminate_send_channel i s =
     (let channel = channels s ! i;
          s1 = (if control_channel channel \<noteq> None then emit (Control_channel_destroy i) s else s);
          s2 = (if engine_channel channel \<noteq> None then emit (Engine_channel_destroy i) s1 else s1)
      in channel_write i (\<lambda>ch. ch\<lparr> control_channel := None, engine_channel := None \<rparr>) s2)"

definition mrcp_server_session_terminate_send :: "mrcp_server_session \<Rightarrow> mrcp_server_session" where
  "mrcp_server_session_terminate_send s =
     emit Session_terminate_response (fold terminate_send_channel [0..<length (channels s)] s)"

definition terminate_process_channel ::
  "env \<Rightarrow> nat \<Rightarrow> mrcp_server_session \<Rightarrow> mrcp_server_session" where
  "terminate_process_channel e i s =
     (let channel = channels s ! i;
          s1 = (if control_channel channel \<noteq> None then
                  (let (b, s') = call e (Control_channel_remove i) s in
                   if b then mrcp_server_session_subrequest_add
                               (channel_write i (\<lambda>ch. ch\<lparr> waiting_for_channel := True \<rparr>) s')
                   else s')
                else s)
      in case engine_channel channel of
           None \<Rightarrow> s1
         | Some ec \<Rightarrow>
             (let s2 = (case ec_termination ec of
                          None \<Rightarrow> s1
                        | Some t \<Rightarrow>
                            (let (b, s') = mpf_engine_message_add e
                                   (Termination_request MPF_SUBTRACT_TERMINATION (Some t) None) s1 in
                             if b then mrcp_server_session_subrequest_add
                                         (channel_write i
                                            (\<lambda>ch. ch\<lparr> waiting_for_termination := True \<rparr>) s')
                             else s'));
                  (b, s3) = call e (Engine_channel_close i) s2
              in if b then mrcp_server_session_subrequest_add s3 else s3))"

definition terminate_process_slot ::
  "env \<Rightarrow> nat \<Rightarrow> mrcp_server_session \<Rightarrow> mrcp_server_session" where
  "terminate_process_slot e i s =
     (let slot = s_terminations s ! i in
      if slot_termination slot = None then s
      else
        (let (b, s') = mpf_engine_message_add e
               (Termination_request MPF_SUBTRACT_TERMINATION (slot_termination slot) None) s in
         if b then mrcp_server_session_subrequest_add
                     (termination_slot_write i (\<lambda>sl. sl\<lparr> waiting := True \<rparr>) s')
         else s'))"

definition mrcp_server_session_terminate_process ::
  "env \<Rightarrow> mrcp_server_session \<Rightarrow> mrcp_server_session" where
  "mrcp_server_session_terminate_process e s =
     (let s1 = mrcp_server_session_state_set SESSION_STATE_TERMINATING s;
          s2 = (if media_context s1 \<noteq> None then
                  (let (b, s') = mpf_engine_message_add e
                         (Topology_request MPF_RESET_ASSOCIATIONS) s1 in
                   if b then mrcp_server_session_subrequest_add s' else s')
                else s1);
          s3 = fold (terminate_process_channel e) [0..<length (channels s2)] s2;
          s4 = fold (terminate_process_slot e) [0..<length (s_terminations s3)] s3;
          s5 = (if media_context s4 \<noteq> None then mpf_engine_message_send s4 else s4);
          s6 = emit Session_remove s5
      in if subrequest_count s6 = 0 then mrcp_server_session_terminate_send s6 else s6)"

definition deactivate_channel :: "env \<Rightarrow> nat \<Rightarrow> mrcp_server_session \<Rightarrow> mrcp_server_session" where
  "deactivate_channel e i s =
     (if state_machine (channels s ! i) = None then s
      else (let (b, s') = call e (State_machine_deactivate i) s in
            if b then mrcp_server_session_subrequest_add s' else s'))"

definition mrcp_server_session_deactivate ::
  "env \<Rightarrow> mrcp_server_session \<Rightarrow> mrcp_server_session" where
  "mrcp_server_session_deactivate e s =
     (let s1 = mrcp_server_session_state_set SESSION_STATE_DEACTIVATING s;
          s2 = fold (deactivate_channel e) [0..<length (channels s1)] s1
      in if subrequest_count s2 = 0 then mrcp_server_session_terminate_process e s2 else s2)"

subsection \<open>Control messages\<close>

definition mrcp_server_on_message_receive ::
  "env \<Rightarrow> nat option \<Rightarrow> mrcp_message \<Rightarrow> mrcp_server_session \<Rightarrow> bool \<times> mrcp_server_session" where
  "mrcp_server_on_message_receive e channel message s =
     (case (case channel of
              Some c \<Rightarrow> Some c
            | None \<Rightarrow> mrcp_server_channel_find e s (channel_resource_name message)) of
        None \<Rightarrow> (False, s)
      | Some c \<Rightarrow>
          if resource (channels s ! c) = None \<or> state_machine (channels s ! c) = None
          then (False, s)
          else call e (State_machine_update c message) s)"

subsection \<open>Offer processing\<close>

text \<open>
  A write through \<open>session->answer\<close>. The pointer is NULL when no offer is being answered,
  and the write is then a fault: the result \<open>None\<close>.
\<close>

definition answer_write ::
  "(mrcp_session_descriptor \<Rightarrow> mrcp_session_descriptor) \<Rightarrow> mrcp_server_session \<Rightarrow>
   mrcp_server_session option" where
  "answer_write f s =
     (case answer s of None \<Rightarrow> None | Some a \<Rightarrow> Some (s\<lparr> answer := Some (f a) \<rparr>))"

definition mrcp_session_answer_create :: "mrcp_session_descriptor \<Rightarrow> mrcp_session_descriptor" where
  "mrcp_session_answer_create offer_descriptor =
     \<lparr> origin = [], ip = [], ext_ip = [],
       resource_name = resource_name offer_descriptor,
       resource_state = resource_state offer_descriptor,
       status = status offer_descriptor,
       control_media_arr = replicate (length (control_media_arr offer_descriptor)) None,
       audio_media_arr = replicate (length (audio_media_arr offer_descriptor)) None,
       video_media_arr = replicate (length (video_media_arr offer_descriptor)) None \<rparr>"

definition mrcp_server_engine_channel_create ::
  "env \<Rightarrow> string \<Rightarrow> mrcp_server_session \<Rightarrow> mrcp_engine_channel option \<times> mrcp_server_session" where
  "mrcp_server_engine_channel_create e name s =
     (case engine_table e name of
        None \<Rightarrow> (None, s)
      | Some resource_engine \<Rightarrow>
          (engine_channel_virtual_create e (calls s), s\<lparr> calls := calls s + 1 \<rparr>))"

definition mrcp_server_channel_create ::
  "env \<Rightarrow> string option \<Rightarrow> nat \<Rightarrow> nat \<Rightarrow> mrcp_server_session \<Rightarrow>
   (mrcp_channel \<times> mrcp_server_session) option" where
  "mrcp_server_channel_create e name id' cmid' s =
     (let channel = \<lparr> ch_resource_name = None, resource = None, control_channel = None,
                      engine_channel = None, state_machine = None, ch_id = id', ch_cmid = cmid',
                      waiting_for_channel = False, waiting_for_termination = False \<rparr>
      in case name of
           None \<Rightarrow>
             map_option (Pair channel)
               (answer_write (\<lambda>a. a\<lparr> status := MRCP_SESSION_STATUS_NO_SUCH_RESOURCE \<rparr>) s)
         | Some n \<Rightarrow>
             (case resource_get e n of
                None \<Rightarrow>
                  map_option (Pair (channel\<lparr> ch_resource_name := Some n \<rparr>))
                    (answer_write (\<lambda>a. a\<lparr> status := MRCP_SESSION_STATUS_NO_SUCH_RESOURCE \<rparr>) s)
              | Some r \<Rightarrow>
                  (let (cc, s1) = (if version s = MRCP_VERSION_2
                                   then (control_channel_create e (calls s),
                                         s\<lparr> calls := calls s + 1 \<rparr>)
                                   else (None, s));
                       (sm, s2) = (create_server_state_machine e (calls s1),
                                   s1\<lparr> calls := calls s1 + 1 \<rparr>);
                       (ec, s3) = mrcp_server_engine_channel_create e n s2;
                       channel' = channel\<lparr> ch_resource_name := Some n, resource := Some r,
                                           control_channel := cc, state_machine := sm,
                                           engine_channel := ec \<rparr>
                   in case ec of
                        Some engine_channel' \<Rightarrow> Some (channel', s3)
                      | None \<Rightarrow>
                          map_option (Pair channel')
                            (answer_write
                               (\<lambda>a. a\<lparr> status := MRCP_SESSION_STATUS_UNACCEPTABLE_RESOURCE \<rparr>)
                               s3))))"

text \<open>
  Opening the engine channel of the channel just added at index \<open>c\<close>, and adding its
  termination to the media context: the tail that \<open>mrcp_server_resource_offer_process\<close> and
  \<open>mrcp_server_control_media_offer_process\<close> share. The result says which termination, if
  any, was handed to the media engine path (the MRCPv1 caller then looks at its stream).
\<close>

definition engine_channel_open ::
  "env \<Rightarrow> nat \<Rightarrow> mrcp_engine_channel \<Rightarrow> mrcp_server_session \<Rightarrow>
   termination_ptr option \<times> mrcp_server_session" where
  "engine_channel_open e c ec s =
     (let (b, s1) = call e (Engine_channel_open c) s in
      if b then
        (let s2 = mrcp_server_session_subrequest_add s1 in
         case ec_termination ec of
           None \<Rightarrow> (None, s2)
         | Some t \<Rightarrow>
             (let (b2, s3) = mpf_engine_message_add e
                    (Termination_request MPF_ADD_TERMINATION (Some t) None) s2 in
              (Some t,
               if b2 then mrcp_server_session_subrequest_add
                            (channel_write c (\<lambda>ch. ch\<lparr> waiting_for_termination := True \<rparr>) s3)
               else s3)))
      else (None, s1))"

definition mrcp_server_resource_offer_process ::
  "env \<Rightarrow> mrcp_session_descriptor \<Rightarrow> mrcp_server_session \<Rightarrow>
   (bool \<times> mrcp_session_descriptor \<times> mrcp_server_session) option" where
  "mrcp_server_resource_offer_process e descriptor s =
     (if resource_state descriptor then
        (case mrcp_server_channel_find e s (resource_name descriptor) of
           Some c \<Rightarrow> Some (True, descriptor, s)
         | None \<Rightarrow>
             (case mrcp_server_channel_create e (resource_name descriptor)
                     (length (channels s)) 0 s of
                None \<Rightarrow> None
              | Some (channel, s1) \<Rightarrow>
                  if resource channel = None then Some (False, descriptor, s1)
                  else
                    (let c = length (channels s1);
                         s2 = s1\<lparr> channels := channels s1 @ [channel] \<rparr>
                     in case engine_channel channel of
                          None \<Rightarrow> Some (True, descriptor, s2)
                        | Some ec \<Rightarrow>
                            (let (t, s3) = engine_channel_open e c ec s2;
                                 descriptor' =
                                   (case t of
                                      None \<Rightarrow> descriptor
                                    | Some t' \<Rightarrow>
                                        (case stream_mode e t' of
                                           None \<Rightarrow> descriptor
                                         | Some mode' \<Rightarrow>
                                             (case mrcp_session_audio_media_get descriptor 0 of
                                                None \<Rightarrow> descriptor
                                              | Some rtp \<Rightarrow>
                                                  mrcp_session_audio_media_set descriptor 0
                                                    (rtp\<lparr> md_mode := md_mode rtp OR mode' \<rparr>))))
                             in Some (True, descriptor', s3)))))
      else Some (True, descriptor, s))"

text \<open>
  Modelled from the spec: \<open>mrcp_control_answer_create\<close> is not among the sources; the control
  answer is a copy of the control descriptor offered. The caller sets its port to 0 and its
  session id, and stores it in the answer at the position of the channel.
\<close>

definition control_answer_set ::
  "nat \<Rightarrow> mrcp_control_descriptor \<Rightarrow> mrcp_server_session \<Rightarrow> mrcp_server_session option" where
  "control_answer_set c control_descriptor s =
     answer_write
       (\<lambda>a. mrcp_session_control_media_set a (ch_id (channels s ! c))
               (control_descriptor\<lparr> port := 0, session_id := sid s \<rparr>)) s"

primrec foldM :: "('a \<Rightarrow> 's \<Rightarrow> 's option) \<Rightarrow> 'a list \<Rightarrow> 's \<Rightarrow> 's option" where
  "foldM f [] s = Some s"
| "foldM f (x # xs) s = (case f x s of None \<Rightarrow> None | Some s' \<Rightarrow> foldM f xs s')"

definition control_media_modify ::
  "env \<Rightarrow> mrcp_session_descriptor \<Rightarrow> nat \<Rightarrow> mrcp_server_session \<Rightarrow> mrcp_server_session option" where
  "control_media_modify e descriptor i s =
     (let s1 = channel_write i (\<lambda>ch. ch\<lparr> waiting_for_channel := False \<rparr>) s in
      case mrcp_session_control_media_get descriptor i of
        None \<Rightarrow> Some s1
      | Some control_descriptor \<Rightarrow>
          (let s2 = (if control_channel (channels s1 ! i) \<noteq> None then
                       (let (b, s') = call e (Control_channel_modify i control_descriptor) s1 in
                        if b then mrcp_server_session_subrequest_add
                                    (channel_write i (\<lambda>ch. ch\<lparr> waiting_for_channel := True \<rparr>) s')
                        else s')
                     else s1)
           in if \<not> waiting_for_channel (channels s2 ! i)
              then control_answer_set i control_descriptor s2 else Some s2))"

definition control_media_add ::
  "env \<Rightarrow> mrcp_session_descriptor \<Rightarrow> nat \<Rightarrow> mrcp_server_session \<Rightarrow> mrcp_server_session option" where
  "control_media_add e descriptor i s =
     (case mrcp_session_control_media_get descriptor i of
        None \<Rightarrow> Some s
      | Some control_descriptor \<Rightarrow>
          (case mrcp_server_channel_create e (cd_resource_name control_descriptor) i
                  (cmid control_descriptor) s of
             None \<Rightarrow> None
           | Some (channel, s1) \<Rightarrow>
               (let control_descriptor' = control_descriptor\<lparr> session_id := sid s1 \<rparr>;
                    c = length (channels s1);
                    s2 = s1\<lparr> channels := channels s1 @ [channel] \<rparr>;
                    s3 = (if control_channel channel \<noteq> None then
                            (let (b, s') = call e (Control_channel_add c control_descriptor') s2 in
                             if b then mrcp_server_session_subrequest_add
                                         (channel_write c
                                            (\<lambda>ch. ch\<lparr> waiting_for_channel := True \<rparr>) s')
                             else s')
                          else s2)
                in case (if \<not> waiting_for_channel (channels s3 ! c)
                         then control_answer_set c control_descriptor' s3 else Some s3) of
                     None \<Rightarrow> None
                   | Some s4 \<Rightarrow>
                       (case engine_channel channel of
                          None \<Rightarrow> Some s4
                        | Some ec \<Rightarrow> Some (snd (engine_channel_open e c ec s4))))))"

definition mrcp_server_control_media_offer_process ::
  "env \<Rightarrow> mrcp_session_descriptor \<Rightarrow> mrcp_server_session \<Rightarrow> mrcp_server_session option" where
  "mrcp_server_control_media_offer_process e descriptor s =
     (let count' = min (length (channels s)) (length (control_media_arr descriptor)) in
      case foldM (control_media_modify e descriptor) [0..<count'] s of
        None \<Rightarrow> None
      | Some s1 \<Rightarrow>
          foldM (control_media_add e descriptor)
            [count'..<length (control_media_arr descriptor)] s1)"

definition mrcp_server_associations_build ::
  "mrcp_session_descriptor \<Rightarrow> nat \<Rightarrow> mrcp_server_session \<Rightarrow>
   mpf_rtp_termination_descriptor option \<times> mrcp_server_session" where
  "mrcp_server_associations_build descriptor i s =
     (case mrcp_session_audio_media_get descriptor (slot_id (s_terminations s ! i)) of
        None \<Rightarrow> (None, s)
      | Some media_descriptor \<Rightarrow>
          (Some \<lparr> audio_local = None, audio_remote = Some media_descriptor \<rparr>,
           termination_slot_write i
             (\<lambda>sl. sl\<lparr> mid := md_mid media_descriptor,
                        slot_channels :=
                          Some (filter (\<lambda>c. ch_cmid (channels s ! c) = md_mid media_descriptor)
                                  [0..<length (channels s)]) \<rparr>) s))"

definition association_set ::
  "env \<Rightarrow> termination_ptr option \<Rightarrow> nat \<Rightarrow> mrcp_server_session \<Rightarrow> mrcp_server_session" where
  "association_set e t c s =
     (case engine_channel (channels s ! c) of
        None \<Rightarrow> s
      | Some ec \<Rightarrow>
          (let (b, s') = mpf_engine_message_add e
                 (Assoc_request MPF_ADD_ASSOCIATION t (ec_termination ec)) s in
           if b then mrcp_server_session_subrequest_add s' else s'))"

definition mrcp_server_associations_set ::
  "env \<Rightarrow> nat \<Rightarrow> mrcp_server_session \<Rightarrow> mrcp_server_session option" where
  "mrcp_server_associations_set e i s =
     (case slot_channels (s_terminations s ! i) of
        None \<Rightarrow> None
      | Some cs \<Rightarrow> Some (fold (association_set e (slot_termination (s_terminations s ! i))) cs s))"

text \<open>
  What both loops of \<open>mrcp_server_av_media_offer_process\<close> do with the slot at index \<open>i\<close>:
  build its associations, add the MODIFY or ADD command, set the associations.
\<close>

definition termination_offer ::
  "env \<Rightarrow> mpf_command \<Rightarrow> mrcp_session_descriptor \<Rightarrow> nat \<Rightarrow> mrcp_server_session \<Rightarrow>
   mrcp_server_session option" where
  "termination_offer e command descriptor i s =
     (let (rtp_descriptor, s1) = mrcp_server_associations_build descriptor i s in
      case rtp_descriptor of
        None \<Rightarrow> Some s1
      | Some r \<Rightarrow>
          (let (b, s2) = mpf_engine_message_add e
                 (Termination_request command (slot_termination (s_terminations s1 ! i)) (Some r)) s1;
               s3 = (if b then mrcp_server_session_subrequest_add
                                (termination_slot_write i (\<lambda>sl. sl\<lparr> waiting := True \<rparr>) s2)
                     else s2)
           in mrcp_server_associations_set e i s3))"

definition av_media_modify ::
  "env \<Rightarrow> mrcp_session_descriptor \<Rightarrow> nat \<Rightarrow> mrcp_server_session \<Rightarrow> mrcp_server_session option" where
  "av_media_modify e descriptor i s =
     (if slot_termination (s_terminations s ! i) = None then Some s
      else termination_offer e MPF_MODIFY_TERMINATION descriptor i s)"

definition av_media_add ::
  "env \<Rightarrow> mrcp_session_descriptor \<Rightarrow> nat \<Rightarrow> mrcp_server_session \<Rightarrow> mrcp_server_session option" where
  "av_media_add e descriptor i s =
     (let t = termination_create e (calls s);
          s1 = (emit Termination_create s)\<lparr> calls := calls s + 1 \<rparr>;
          n = length (s_terminations s1);
          s2 = s1\<lparr> s_terminations := s_terminations s1 @
                     [\<lparr> slot_termination = t, slot_id = i, mid = 0, slot_channels = None,
                        waiting = False \<rparr>] \<rparr>
      in termination_offer e MPF_ADD_TERMINATION descriptor n s2)"

definition mrcp_server_av_media_offer_process ::
  "env \<Rightarrow> mrcp_session_descriptor \<Rightarrow> mrcp_server_session \<Rightarrow> mrcp_server_session option" where
  "mrcp_server_av_media_offer_process e descriptor s =
     (if audio_media_arr descriptor = [] then Some s
      else
        (let count' = min (length (s_terminations s)) (length (audio_media_arr descriptor)) in
         case foldM (av_media_modify e descriptor) [0..<count'] s of
           None \<Rightarrow> None
         | Some s1 \<Rightarrow>
             foldM (av_media_add e descriptor)
               [count'..<length (audio_media_arr descriptor)] s1))"

text \<open>
  \<open>mrcp_server_session_offer_process\<close> in three parts. \<open>offer_begin\<close> is its beginning:
  the session is added and the media context created when there is none yet, the offer and a
  fresh answer are stored, the state is set. \<open>offer_media\<close> is the branch on the version.
  \<open>offer_body\<close> is the function up to and including the sending of the batch; what is left
  of it is the test whether the answer can be sent at once.
\<close>

definition offer_begin ::
  "env \<Rightarrow> mrcp_session_descriptor \<Rightarrow> mrcp_server_session \<Rightarrow> mrcp_server_session" where
  "offer_begin e descriptor s =
     (let s1 = (if media_context s = None then
                  (let s' = (if sid s = [] then s\<lparr> sid := unique_id e \<rparr> else s) in
                   (emit Context_create (emit Session_add s'))
                     \<lparr> media_context := Some (context_create e) \<rparr>)
                else s);
          s2 = s1\<lparr> offer := Some descriptor,
                    answer := Some (mrcp_session_answer_create descriptor) \<rparr>
      in mrcp_server_session_state_set SESSION_STATE_ANSWERING s2)"

definition offer_media ::
  "env \<Rightarrow> mrcp_session_descriptor \<Rightarrow> mrcp_server_session \<Rightarrow> mrcp_server_session option" where
  "offer_media e descriptor s =
     (if version s = MRCP_VERSION_1 then
        (case mrcp_server_resource_offer_process e descriptor s of
           None \<Rightarrow> None
         | Some (r, descriptor', s') \<Rightarrow>
             if r then mrcp_server_av_media_offer_process e descriptor'
                         (s'\<lparr> offer := Some descriptor' \<rparr>)
             else answer_write (\<lambda>a. a\<lparr> resource_state := False \<rparr>) s')
      else
        (case mrcp_server_control_media_offer_process e descriptor s of
           None \<Rightarrow> None
         | Some s' \<Rightarrow> mrcp_server_av_media_offer_process e descriptor s'))"

definition offer_body ::
  "env \<Rightarrow> mrcp_session_descriptor \<Rightarrow> mrcp_server_session \<Rightarrow> mrcp_server_session option" where
  "offer_body e descriptor s =
     (let s3 = offer_begin e descriptor s;
          (b, s4) = mpf_engine_message_add e (Topology_request MPF_RESET_ASSOCIATIONS) s3;
          s5 = (if b then mrcp_server_session_subrequest_add s4 else s4)
      in case offer_media e descriptor s5 of
           None \<Rightarrow> None
         | Some s6 \<Rightarrow>
             (let (b2, s7) = mpf_engine_message_add e (Topology_request MPF_APPLY_TOPOLOGY) s6;
                  s8 = (if b2 then mrcp_server_session_subrequest_add s7 else s7)
              in Some (mpf_engine_message_send s8)))"

subsection \<open>What a step leaves alone\<close>

text \<open>
  An action is silent when it is no answer, no terminate response and no MRCP response sent
  to the client. A step is calm when it leaves the queue, the active message, the version
  and the state alone, keeps an answer descriptor that is there, and only adds silent actions.
\<close>

definition silent :: "action \<Rightarrow> bool" where
  "silent a =
     (case a of
        Session_answer d \<Rightarrow> False
      | Session_terminate_response \<Rightarrow> False
      | Session_control_response m \<Rightarrow> message_type m \<noteq> MRCP_MESSAGE_TYPE_RESPONSE
      | Control_message_send c m \<Rightarrow> message_type m \<noteq> MRCP_MESSAGE_TYPE_RESPONSE
      | _ \<Rightarrow> True)"

definition steady ::
  "(action \<Rightarrow> bool) \<Rightarrow> mrcp_server_session \<Rightarrow> mrcp_server_session \<Rightarrow> bool" where
  "steady p s s' =
     (request_queue s' = request_queue s \<and> active_request s' = active_request s \<and>
      version s' = version s \<and> (answer s \<noteq> None \<longrightarrow> answer s' \<noteq> None) \<and>
      (\<exists>tr. out s' = out s @ tr \<and> list_all p tr))"

definition calm :: "mrcp_server_session \<Rightarrow> mrcp_server_session \<Rightarrow> bool" where
  "calm s s' = (steady silent s s' \<and> state s' = state s)"

lemma steady_refl [simp]: "steady p s s"
  by (simp add: steady_def)

lemma steady_trans: "steady p s s' \<Longrightarrow> steady p s' s'' \<Longrightarrow> steady p s s''"
  by (auto simp: steady_def)

lemma steady_mono: "steady p s s' \<Longrightarrow> (\<And>a. p a \<Longrightarrow> q a) \<Longrightarrow> steady q s s'"
  by (auto simp: steady_def list_all_iff)

lemma calm_refl [simp]: "calm s s"
  by (simp add: calm_def)

lemma calm_trans: "calm s s' \<Longrightarrow> calm s' s'' \<Longrightarrow> calm s s''"
  by (auto simp: calm_def intro: steady_trans)

lemma calm_steady: "calm s s' \<Longrightarrow> steady silent s s'"
  by (simp add: calm_def)

text \<open>The steps, each as the last of a calm run from \<open>s\<close>.\<close>

lemma calm_emit: "calm s t \<Longrightarrow> silent a \<Longrightarrow> calm s (emit a t)"
  by (auto simp: calm_def steady_def emit_def)

lemma calm_call: "calm s t \<Longrightarrow> silent a \<Longrightarrow> calm s (snd (call e a t))"
  by (auto simp: calm_def steady_def call_def)

lemma calm_message_add: "calm s t \<Longrightarrow> calm s (snd (mpf_engine_message_add e r t))"
  by (auto simp: calm_def steady_def mpf_engine_message_add_def)

lemma calm_message_send: "calm s t \<Longrightarrow> calm s (mpf_engine_message_send t)"
  by (auto simp: calm_def steady_def mpf_engine_message_send_def emit_def silent_def)

lemma calm_subrequest_add: "calm s t \<Longrightarrow> calm s (mrcp_server_session_subrequest_add t)"
  by (auto simp: calm_def steady_def mrcp_server_session_subrequest_add_def)

lemma calm_channel_write: "calm s t \<Longrightarrow> calm s (channel_write c f t)"
  by (auto simp: calm_def steady_def channel_write_def)

lemma calm_slot_write: "calm s t \<Longrightarrow> calm s (termination_slot_write i f t)"
  by (auto simp: calm_def steady_def termination_slot_write_def)

lemma calm_channels_update: "calm s t \<Longrightarrow> calm s (channels_update f t)"
  by (auto simp: calm_def steady_def)

lemma calm_calls_update: "calm s t \<Longrightarrow> calm s (calls_update f t)"
  by (auto simp: calm_def steady_def)

lemma calm_terminations_update: "calm s t \<Longrightarrow> calm s (s_terminations_update f t)"
  by (auto simp: calm_def steady_def)

lemma calm_offer_update: "calm s t \<Longrightarrow> calm s (offer_update f t)"
  by (auto simp: calm_def steady_def)

lemma calm_sid_update: "calm s t \<Longrightarrow> calm s (sid_update f t)"
  by (auto simp: calm_def steady_def)

lemma calm_media_context_update: "calm s t \<Longrightarrow> calm s (media_context_update f t)"
  by (auto simp: calm_def steady_def)

lemma calm_answer_write: "answer_write f t = Some t' \<Longrightarrow> calm s t \<Longrightarrow> calm s t'"
  by (auto simp: calm_def steady_def answer_write_def split: option.splits)

lemma calm_fold:
  "(\<And>x t. calm s t \<Longrightarrow> calm s (f x t)) \<Longrightarrow> calm s t \<Longrightarrow> calm s (fold f xs t)"
  by (induction xs arbitrary: t) auto

lemma calm_foldM:
  assumes step: "\<And>x t t'. f x t = Some t' \<Longrightarrow> calm s t \<Longrightarrow> calm s t'"
  shows "foldM f xs t = Some t' \<Longrightarrow> calm s t \<Longrightarrow> calm s t'"
proof (induction xs arbitrary: t)
  case Nil
  then show ?case by simp
next
  case (Cons x xs)
  from Cons.prems(1) obtain u where u: "f x t = Some u" and r: "foldM f xs u = Some t'"
    by (auto split: option.splits)
  have "calm s u" by (rule step [OF u Cons.prems(2)])
  with Cons.IH [OF r] show ?case .
qed

lemmas calm_steps =
  calm_emit calm_call calm_message_add calm_message_send calm_subrequest_add
  calm_channel_write calm_slot_write calm_channels_update calm_calls_update
  calm_terminations_update calm_offer_update calm_sid_update calm_media_context_update

lemma calm_engine_channel_create:
  "calm s t \<Longrightarrow> calm s (snd (mrcp_server_engine_channel_create e n t))"
  by (auto simp: mrcp_server_engine_channel_create_def split: option.splits intro!: calm_steps)

lemma calm_engine_channel_open:
  "calm s t \<Longrightarrow> calm s (snd (engine_channel_open e c ec t))"
  by (auto simp: engine_channel_open_def split_beta Let_def silent_def
           split: option.splits intro!: calm_steps)

lemma calm_channel_create:
  "mrcp_server_channel_create e name i m t = Some (ch, t') \<Longrightarrow> calm s t \<Longrightarrow> calm s t'"
  by (auto simp: mrcp_server_channel_create_def split_beta Let_def
           split: option.splits if_splits
           intro!: calm_steps calm_engine_channel_create
           elim!: calm_answer_write)

lemma calm_resource_offer_process:
  "mrcp_server_resource_offer_process e d t = Some (r, d', t') \<Longrightarrow> calm s t \<Longrightarrow> calm s t'"
  by (auto simp: mrcp_server_resource_offer_process_def split_beta Let_def
           split: option.splits if_splits
           intro!: calm_steps calm_engine_channel_open
           dest: calm_channel_create)

lemma calm_control_answer_set:
  "control_answer_set c cd t = Some t' \<Longrightarrow> calm s t \<Longrightarrow> calm s t'"
  unfolding control_answer_set_def by (rule calm_answer_write)

lemma calm_control_media_modify:
  "control_media_modify e d i t = Some t' \<Longrightarrow> calm s t \<Longrightarrow> calm s t'"
  by (auto simp: control_media_modify_def split_beta Let_def silent_def
           split: option.splits if_splits
           intro!: calm_steps
           elim!: calm_control_answer_set)

lemma calm_control_media_add:
  "control_media_add e d i t = Some t' \<Longrightarrow> calm s t \<Longrightarrow> calm s t'"
  by (auto simp: control_media_add_def split_beta Let_def silent_def
           split: option.splits if_splits
           intro!: calm_steps calm_engine_channel_open
           elim!: calm_control_answer_set dest: calm_channel_create)

lemma calm_control_media_offer_process:
  "mrcp_server_control_media_offer_process e d t = Some t' \<Longrightarrow> calm s t \<Longrightarrow> calm s t'"
  by (auto simp: mrcp_server_control_media_offer_process_def Let_def split: option.splits
           elim!: calm_foldM [rotated 1] calm_control_media_modify calm_control_media_add)

lemma calm_associations_build:
  "calm s t \<Longrightarrow> calm s (snd (mrcp_server_associations_build d i t))"
  by (auto simp: mrcp_server_associations_build_def split: option.splits intro!: calm_steps)

lemma calm_association_set: "calm s t \<Longrightarrow> calm s (association_set e x c t)"
  by (auto simp: association_set_def split_beta Let_def split: option.splits intro!: calm_steps)

lemma calm_associations_set:
  "mrcp_server_associations_set e i t = Some t' \<Longrightarrow> calm s t \<Longrightarrow> calm s t'"
  by (auto simp: mrcp_server_associations_set_def split: option.splits
           intro!: calm_fold calm_association_set)

lemma calm_termination_offer:
  "termination_offer e cmd d i t = Some t' \<Longrightarrow> calm s t \<Longrightarrow> calm s t'"
  by (auto simp: termination_offer_def split_beta Let_def split: option.splits if_splits
           intro!: calm_steps calm_associations_build
           elim!: calm_associations_set)

lemma calm_av_media_modify:
  "av_media_modify e d i t = Some t' \<Longrightarrow> calm s t \<Longrightarrow> calm s t'"
  by (auto simp: av_media_modify_def split: if_splits elim!: calm_termination_offer)

lemma calm_av_media_add:
  "av_media_add e d i t = Some t' \<Longrightarrow> calm s t \<Longrightarrow> calm s t'"
  by (auto simp: av_media_add_def Let_def silent_def
           elim!: calm_termination_offer intro!: calm_steps)

lemma calm_av_media_offer_process:
  "mrcp_server_av_media_offer_process e d t = Some t' \<Longrightarrow> calm s t \<Longrightarrow> calm s t'"
  by (auto simp: mrcp_server_av_media_offer_process_def Let_def split: option.splits if_splits
           elim!: calm_foldM [rotated 1] calm_av_media_modify calm_av_media_add)


lemma calm_offer_media:
  "offer_media e d t = Some t' \<Longrightarrow> calm s t \<Longrightarrow> calm s t'"
  by (auto simp: offer_media_def split: option.splits if_splits
           elim!: calm_answer_write
           dest!: calm_resource_offer_process
           elim: calm_av_media_offer_process calm_control_media_offer_process
           intro!: calm_steps)

lemma offer_begin_steady:
  "steady silent s (offer_begin e d s) \<and> state (offer_begin e d s) = SESSION_STATE_ANSWERING \<and>
   answer (offer_begin e d s) \<noteq> None"
  by (simp add: offer_begin_def steady_def mrcp_server_session_state_set_def Let_def emit_def
        silent_def)

lemma calm_offer_body:
  "offer_body e d s = Some s' \<Longrightarrow> calm (offer_begin e d s) s'"
  by (auto simp: offer_body_def split_beta Let_def split: option.splits if_splits
           intro!: calm_steps elim!: calm_offer_media)

lemma offer_body_steady:
  assumes "offer_body e d s = Some s'"
  shows "steady silent s s' \<and> state s' = SESSION_STATE_ANSWERING \<and> answer s' \<noteq> None"
  using offer_begin_steady [of s e d] calm_offer_body [OF assms]
  by (auto simp: calm_def intro: steady_trans) (simp add: steady_def)

lemma request_queue_offer_body:
  "offer_body e d s = Some s' \<Longrightarrow> request_queue s' = request_queue s"
  by (drule offer_body_steady) (simp add: steady_def)


subsection \<open>Answering and dispatching\<close>

text \<open>
  \<open>mrcp_server_session_answer_send\<close> takes the next message from the queue and dispatches
  it, and dispatching an offer may send an answer at once, so the three functions call each
  other; every round takes one message from the queue. Sending an answer reads
  \<open>session->answer\<close>: where there is none the result is the fault \<open>None\<close>. No collaborator
  calls back into the session before it returns: its callbacks are events of their own.
\<close>

function mrcp_server_session_answer_send ::
    "env \<Rightarrow> mrcp_server_session \<Rightarrow> mrcp_server_session option"
  and mrcp_server_signaling_message_dispatch ::
    "env \<Rightarrow> mrcp_signaling_message \<Rightarrow> mrcp_server_session \<Rightarrow> mrcp_server_session option"
  and mrcp_server_session_offer_process ::
    "env \<Rightarrow> mrcp_session_descriptor \<Rightarrow> mrcp_server_session \<Rightarrow> mrcp_server_session option"
where
  "mrcp_server_session_answer_send e s =
     (case answer s of
        None \<Rightarrow> None
      | Some descriptor \<Rightarrow>
          (let s1 = (emit (Session_answer descriptor) s)\<lparr> offer := None, answer := None \<rparr> in
           case request_queue s1 of
             [] \<Rightarrow> Some (s1\<lparr> active_request := None \<rparr>)
           | m # q \<Rightarrow>
               mrcp_server_signaling_message_dispatch e m
                 (s1\<lparr> active_request := Some m, request_queue := q \<rparr>)))"
| "mrcp_server_signaling_message_dispatch e signaling_message s =
     (case signaling_message of
        SIGNALING_MESSAGE_OFFER descriptor \<Rightarrow>
          mrcp_server_session_offer_process e descriptor s
      | SIGNALING_MESSAGE_CONTROL channel message \<Rightarrow>
          Some (snd (mrcp_server_on_message_receive e channel message s))
      | SIGNALING_MESSAGE_TERMINATE \<Rightarrow> Some (mrcp_server_session_deactivate e s))"
| "mrcp_server_session_offer_process e descriptor s =
     (case offer_body e descriptor s of
        None \<Rightarrow> None
      | Some s' \<Rightarrow>
          if subrequest_count s' = 0 then mrcp_server_session_answer_send e s' else Some s')"
  by pat_completeness auto
termination
  by (relation "measure (\<lambda>x. case x of
          Inl (e, s) \<Rightarrow> 3 * length (request_queue s) + 1
        | Inr (Inl (e, m, s)) \<Rightarrow> 3 * length (request_queue s) + 3
        | Inr (Inr (e, d, s)) \<Rightarrow> 3 * length (request_queue s) + 2)")
     (auto simp: emit_def request_queue_offer_body)

declare mrcp_server_session_answer_send.simps [simp del]
declare mrcp_server_signaling_message_dispatch.simps [simp del]
declare mrcp_server_session_offer_process.simps [simp del]

definition mrcp_server_session_subrequest_remove ::
  "env \<Rightarrow> mrcp_server_session \<Rightarrow> mrcp_server_session option" where
  "mrcp_server_session_subrequest_remove e s =
     (if subrequest_count s = 0 then Some s
      else
        (let s1 = s\<lparr> subrequest_count := size_dec (subrequest_count s) \<rparr> in
         if subrequest_count s1 = 0 then
           (case state s1 of
              SESSION_STATE_ANSWERING \<Rightarrow> mrcp_server_session_answer_send e s1
            | SESSION_STATE_DEACTIVATING \<Rightarrow> Some (mrcp_server_session_terminate_process e s1)
            | SESSION_STATE_TERMINATING \<Rightarrow> Some (mrcp_server_session_terminate_send s1)
            | SESSION_STATE_NONE \<Rightarrow> Some s1)
         else Some s1))"

subsection \<open>Entry points\<close>

definition mrcp_server_signaling_message_process ::
  "env \<Rightarrow> mrcp_signaling_message \<Rightarrow> mrcp_server_session \<Rightarrow> mrcp_server_session option" where
  "mrcp_server_signaling_message_process e signaling_message s =
     (if active_request s \<noteq> None
      then Some (s\<lparr> request_queue := request_queue s @ [signaling_message] \<rparr>)
      else mrcp_server_signaling_message_dispatch e signaling_message
             (s\<lparr> active_request := Some signaling_message \<rparr>))"

definition mrcp_server_on_channel_modify ::
  "env \<Rightarrow> nat \<Rightarrow> mrcp_control_descriptor option \<Rightarrow> mrcp_server_session \<Rightarrow>
   (bool \<times> mrcp_server_session) option" where
  "mrcp_server_on_channel_modify e channel answer' s =
     (case answer' of
        None \<Rightarrow> Some (False, s)
      | Some a \<Rightarrow>
          if \<not> waiting_for_channel (channels s ! channel) then Some (False, s)
          else
            (case answer_write
                    (\<lambda>d. mrcp_session_control_media_set d (ch_id (channels s ! channel))
                            (a\<lparr> session_id := sid s \<rparr>))
                    (channel_write channel (\<lambda>ch. ch\<lparr> waiting_for_channel := False \<rparr>) s) of
               None \<Rightarrow> None
             | Some s1 \<Rightarrow> map_option (Pair True) (mrcp_server_session_subrequest_remove e s1)))"

definition mrcp_server_on_channel_remove ::
  "env \<Rightarrow> nat \<Rightarrow> mrcp_server_session \<Rightarrow> (bool \<times> mrcp_server_session) option" where
  "mrcp_server_on_channel_remove e channel s =
     (if \<not> waiting_for_channel (channels s ! channel) then Some (False, s)
      else map_option (Pair True)
             (mrcp_server_session_subrequest_remove e
                (channel_write channel (\<lambda>ch. ch\<lparr> waiting_for_channel := False \<rparr>) s)))"

definition mrcp_server_on_channel_message ::
  "env \<Rightarrow> nat \<Rightarrow> mrcp_message \<Rightarrow> mrcp_server_session \<Rightarrow> mrcp_server_session option" where
  "mrcp_server_on_channel_message e channel message s =
     mrcp_server_signaling_message_process e
       (SIGNALING_MESSAGE_CONTROL (Some channel) message) s"

definition mrcp_server_on_engine_channel_open ::
  "env \<Rightarrow> nat \<Rightarrow> bool \<Rightarrow> mrcp_server_session \<Rightarrow> mrcp_server_session option" where
  "mrcp_server_on_engine_channel_open e channel status' s =
     (case (if \<not> status'
            then answer_write (\<lambda>a. a\<lparr> status := MRCP_SESSION_STATUS_UNAVAILABLE_RESOURCE \<rparr>) s
            else Some s) of
        None \<Rightarrow> None
      | Some s1 \<Rightarrow> mrcp_server_session_subrequest_remove e s1)"

definition mrcp_server_on_engine_channel_close ::
  "env \<Rightarrow> nat \<Rightarrow> mrcp_server_session \<Rightarrow> mrcp_server_session option" where
  "mrcp_server_on_engine_channel_close e channel s = mrcp_server_session_subrequest_remove e s"

definition mrcp_server_on_engine_channel_message ::
  "env \<Rightarrow> nat \<Rightarrow> mrcp_message \<Rightarrow> mrcp_server_session \<Rightarrow> bool \<times> mrcp_server_session" where
  "mrcp_server_on_engine_channel_message e channel message s =
     (if state_machine (channels s ! channel) = None then (False, s)
      else call e (State_machine_update channel message) s)"

text \<open>
  The two handlers of termination responses. The session pointer they are given is NULL
  when the message names no context.
\<close>

definition mrcp_server_on_termination_modify ::
  "env \<Rightarrow> mrcp_server_session option \<Rightarrow> mpf_message \<Rightarrow>
   (bool \<times> mrcp_server_session option) option" where
  "mrcp_server_on_termination_modify e session mpf_message' =
     (case session of
        None \<Rightarrow> Some (False, None)
      | Some s \<Rightarrow>
          (case mrcp_server_rtp_termination_find s (m_termination mpf_message') of
             Some i \<Rightarrow>
               if \<not> waiting (s_terminations s ! i) then Some (False, Some s)
               else
                 (let s1 = termination_slot_write i (\<lambda>sl. sl\<lparr> waiting := False \<rparr>) s in
                  case m_descriptor mpf_message' of
                    None \<Rightarrow> None
                  | Some rtp_descriptor \<Rightarrow>
                      (case (case audio_local rtp_descriptor of
                               None \<Rightarrow> Some s1
                             | Some local \<Rightarrow>
                                 answer_write
                                   (\<lambda>a. mrcp_session_audio_media_set
                                           (a\<lparr> ip := md_ip local, ext_ip := md_ext_ip local \<rparr>)
                                           (slot_id (s_terminations s1 ! i)) local) s1) of
                         None \<Rightarrow> None
                       | Some s2 \<Rightarrow>
                           map_option (\<lambda>s3. (True, Some s3))
                             (mrcp_server_session_subrequest_remove e s2)))
           | None \<Rightarrow>
               (case mrcp_server_channel_termination_find s (m_termination mpf_message') of
                  Some c \<Rightarrow>
                    if waiting_for_termination (channels s ! c) then
                      map_option (\<lambda>s2. (True, Some s2))
                        (mrcp_server_session_subrequest_remove e
                           (channel_write c (\<lambda>ch. ch\<lparr> waiting_for_termination := False \<rparr>) s))
                    else Some (True, Some s)
                | None \<Rightarrow> Some (True, Some s))))"

definition mrcp_server_on_termination_subtract ::
  "env \<Rightarrow> mrcp_server_session option \<Rightarrow> mpf_message \<Rightarrow>
   (bool \<times> mrcp_server_session option) option" where
  "mrcp_server_on_termination_subtract e session mpf_message' =
     (case session of
        None \<Rightarrow> Some (False, None)
      | Some s \<Rightarrow>
          (case mrcp_server_rtp_termination_find s (m_termination mpf_message') of
             Some i \<Rightarrow>
               if \<not> waiting (s_terminations s ! i) then Some (False, Some s)
               else
                 map_option (\<lambda>s2. (True, Some s2))
                   (mrcp_server_session_subrequest_remove e
                      (termination_slot_write i (\<lambda>sl. sl\<lparr> waiting := False \<rparr>) s))
           | None \<Rightarrow>
               (case mrcp_server_channel_termination_find s (m_termination mpf_message') of
                  Some c \<Rightarrow>
                    if waiting_for_termination (channels s ! c) then
                      map_option (\<lambda>s2. (True, Some s2))
                        (mrcp_server_session_subrequest_remove e
                           (channel_write c (\<lambda>ch. ch\<lparr> waiting_for_termination := False \<rparr>) s))
                    else Some (True, Some s)
                | None \<Rightarrow> Some (True, Some s))))"

text \<open>
  One message of the container handed to \<open>mrcp_server_mpf_message_process\<close>, for the
  session its context belongs to. A message without a context leaves the session alone,
  and is a fault where the session pointer is used unchecked.
\<close>

definition mpf_message_process_one ::
  "env \<Rightarrow> mpf_message \<Rightarrow> mrcp_server_session \<Rightarrow> mrcp_server_session option" where
  "mpf_message_process_one e m s =
     (let session = (if has_context m then Some s else None) in
      case mpf_message_type m of
        MPF_MESSAGE_TYPE_EVENT \<Rightarrow> Some s
      | MPF_MESSAGE_TYPE_RESPONSE \<Rightarrow>
          if command_id m = MPF_ADD_TERMINATION \<or> command_id m = MPF_MODIFY_TERMINATION then
            (case mrcp_server_on_termination_modify e session m of
               None \<Rightarrow> None
             | Some (r, None) \<Rightarrow> Some s
             | Some (r, Some s') \<Rightarrow> Some s')
          else if command_id m = MPF_SUBTRACT_TERMINATION then
            (case mrcp_server_on_termination_subtract e session m of
               None \<Rightarrow> None
             | Some (r, None) \<Rightarrow> Some s
             | Some (r, Some s') \<Rightarrow> Some s')
          else
            (case session of
               None \<Rightarrow> None
             | Some s' \<Rightarrow> mrcp_server_session_subrequest_remove e s'))"

definition mrcp_server_mpf_message_process ::
  "env \<Rightarrow> mpf_message list \<Rightarrow> mrcp_server_session \<Rightarrow> mrcp_server_session option" where
  "mrcp_server_mpf_message_process e container s = foldM (mpf_message_process_one e) container s"

text \<open>The two callbacks of the state machine of a channel.\<close>

definition state_machine_on_message_dispatch ::
  "env \<Rightarrow> nat \<Rightarrow> mrcp_message \<Rightarrow> mrcp_server_session \<Rightarrow> mrcp_server_session option" where
  "state_machine_on_message_dispatch e channel message s =
     (let send = (\<lambda>s. if control_channel (channels s ! channel) \<noteq> None
                      then emit (Control_message_send channel message) s
                      else emit (Session_control_response message) s) in
      case message_type message of
        MRCP_MESSAGE_TYPE_REQUEST \<Rightarrow>
          Some (if engine_channel (channels s ! channel) \<noteq> None
                then emit (Engine_channel_request channel message) s else s)
      | MRCP_MESSAGE_TYPE_RESPONSE \<Rightarrow>
          (let s1 = send s in
           case request_queue s1 of
             [] \<Rightarrow> Some (s1\<lparr> active_request := None \<rparr>)
           | m # q \<Rightarrow>
               mrcp_server_signaling_message_dispatch e m
                 (s1\<lparr> active_request := Some m, request_queue := q \<rparr>))
      | MRCP_MESSAGE_TYPE_EVENT \<Rightarrow> Some (send s))"

definition state_machine_on_deactivate ::
  "env \<Rightarrow> nat \<Rightarrow> mrcp_server_session \<Rightarrow> mrcp_server_session option" where
  "state_machine_on_deactivate e channel s = mrcp_server_session_subrequest_remove e s"

section \<open>Claims about the server session\<close>

subsection \<open>A session and collaborators to run it with\<close>

text \<open>
  Collaborators that accept every call and know one resource, \<open>speechsynth\<close>, whose engine
  channels come with the termination 7.
\<close>

definition env_ok :: env where
  "env_ok =
     \<lparr> ok = (\<lambda>n. True),
       resource_get = (\<lambda>n. if n = ''speechsynth'' then Some 1 else None),
       engine_table = (\<lambda>n. if n = ''speechsynth'' then Some 2 else None),
       control_channel_create = (\<lambda>n. Some 3),
       create_server_state_machine = (\<lambda>n. Some 4),
       engine_channel_virtual_create = (\<lambda>n. Some \<lparr> ec_termination = Some 7 \<rparr>),
       termination_create = (\<lambda>n. Some (10 + n)),
       stream_mode = (\<lambda>t. Some STREAM_MODE_SEND),
       apt_string_compare = (\<lambda>a b. a = b),
       unique_id = ''a1b2'',
       context_create = 5 \<rparr>"

text \<open>A session that waits for two sub-requests while it answers an offer.\<close>

definition offer_empty :: mrcp_session_descriptor where
  "offer_empty =
     \<lparr> origin = [], ip = [], ext_ip = [], resource_name = None, resource_state = False,
       status = MRCP_SESSION_STATUS_OK, control_media_arr = [], audio_media_arr = [],
       video_media_arr = [] \<rparr>"

definition waiting_session :: mrcp_server_session where
  "waiting_session =
     (mrcp_server_session_create MRCP_VERSION_2)
       \<lparr> answer := Some offer_empty, subrequest_count := 2,
         state := SESSION_STATE_ANSWERING \<rparr>"

subsection \<open>The counter of sub-requests\<close>

text \<open>
  C8. The counter of sub-requests never goes below zero. A completion that arrives when the
  counter is zero is ignored: \<open>mrcp_server_session_subrequest_remove\<close> returns at once and
  the session is what it was, with nothing done. A completion that arrives when the counter
  is not zero takes exactly one from it, without wrapping: above one the session is left
  with the counter one lower, and at one the counter becomes zero and the session goes on
  according to its state. Entering a state sets the counter to zero whatever it was.
\<close>

theorem subrequest_count_never_negative:
  assumes "subrequest_count s \<le> apr_size_max"
  shows "(subrequest_count s = 0 \<longrightarrow> mrcp_server_session_subrequest_remove e s = Some s) \<and>
         (1 < subrequest_count s \<longrightarrow>
            mrcp_server_session_subrequest_remove e s =
              Some (s\<lparr> subrequest_count := subrequest_count s - 1 \<rparr>)) \<and>
         (subrequest_count s = 1 \<longrightarrow>
            mrcp_server_session_subrequest_remove e s =
              (case state s of
                 SESSION_STATE_ANSWERING \<Rightarrow>
                   mrcp_server_session_answer_send e (s\<lparr> subrequest_count := 0 \<rparr>)
               | SESSION_STATE_DEACTIVATING \<Rightarrow>
                   Some (mrcp_server_session_terminate_process e (s\<lparr> subrequest_count := 0 \<rparr>))
               | SESSION_STATE_TERMINATING \<Rightarrow>
                   Some (mrcp_server_session_terminate_send (s\<lparr> subrequest_count := 0 \<rparr>))
               | SESSION_STATE_NONE \<Rightarrow> Some (s\<lparr> subrequest_count := 0 \<rparr>))) \<and>
         mrcp_server_session_state_set st s = s\<lparr> subrequest_count := 0, state := st \<rparr>"
proof -
  have dec: "0 < subrequest_count s \<Longrightarrow> size_dec (subrequest_count s) = subrequest_count s - 1"
    using assms by (simp add: size_dec_pred)
  have "subrequest_count s = 0 \<longrightarrow> mrcp_server_session_subrequest_remove e s = Some s"
    by (simp add: mrcp_server_session_subrequest_remove_def)
  moreover have "1 < subrequest_count s \<longrightarrow>
      mrcp_server_session_subrequest_remove e s =
        Some (s\<lparr> subrequest_count := subrequest_count s - 1 \<rparr>)"
    using dec by (simp add: mrcp_server_session_subrequest_remove_def Let_def)
  moreover have "subrequest_count s = 1 \<longrightarrow>
      mrcp_server_session_subrequest_remove e s =
        (case state s of
           SESSION_STATE_ANSWERING \<Rightarrow>
             mrcp_server_session_answer_send e (s\<lparr> subrequest_count := 0 \<rparr>)
         | SESSION_STATE_DEACTIVATING \<Rightarrow>
             Some (mrcp_server_session_terminate_process e (s\<lparr> subrequest_count := 0 \<rparr>))
         | SESSION_STATE_TERMINATING \<Rightarrow>
             Some (mrcp_server_session_terminate_send (s\<lparr> subrequest_count := 0 \<rparr>))
         | SESSION_STATE_NONE \<Rightarrow> Some (s\<lparr> subrequest_count := 0 \<rparr>))"
  proof
    assume one: "subrequest_count s = 1"
    with dec have "size_dec (subrequest_count s) = 0" by simp
    with one show "mrcp_server_session_subrequest_remove e s =
        (case state s of
           SESSION_STATE_ANSWERING \<Rightarrow>
             mrcp_server_session_answer_send e (s\<lparr> subrequest_count := 0 \<rparr>)
         | SESSION_STATE_DEACTIVATING \<Rightarrow>
             Some (mrcp_server_session_terminate_process e (s\<lparr> subrequest_count := 0 \<rparr>))
         | SESSION_STATE_TERMINATING \<Rightarrow>
             Some (mrcp_server_session_terminate_send (s\<lparr> subrequest_count := 0 \<rparr>))
         | SESSION_STATE_NONE \<Rightarrow> Some (s\<lparr> subrequest_count := 0 \<rparr>))"
      unfolding mrcp_server_session_subrequest_remove_def
      by (simp add: Let_def split: mrcp_server_session_state.splits)
  qed
  moreover have "mrcp_server_session_state_set st s = s\<lparr> subrequest_count := 0, state := st \<rparr>"
    by (simp add: mrcp_server_session_state_set_def)
  ultimately show ?thesis by blast
qed

theorem subrequest_count_never_negative_witness:
  "subrequest_count waiting_session \<le> apr_size_max \<and>
   mrcp_server_session_subrequest_remove env_ok waiting_session =
     Some (waiting_session\<lparr> subrequest_count := 1 \<rparr>) \<and>
   mrcp_server_session_state_set SESSION_STATE_TERMINATING waiting_session =
     waiting_session\<lparr> subrequest_count := 0, state := SESSION_STATE_TERMINATING \<rparr>"
proof -
  have le: "subrequest_count waiting_session \<le> apr_size_max"
    by (simp add: waiting_session_def apr_size_max_def)
  have two: "subrequest_count waiting_session = 2"
    by (simp add: waiting_session_def)
  from subrequest_count_never_negative [OF le, of env_ok SESSION_STATE_TERMINATING] le two
  show ?thesis by simp
qed

subsection \<open>Responses about terminations\<close>

text \<open>
  A session with one RTP termination, 11, and one channel whose engine channel has the
  termination 7; neither waits for a response.
\<close>

definition settled_session :: mrcp_server_session where
  "settled_session =
     waiting_session
       \<lparr> s_terminations :=
           [\<lparr> slot_termination = Some 11, slot_id = 0, mid = 0, slot_channels = None,
              waiting = False \<rparr>],
         channels :=
           [\<lparr> ch_resource_name = Some ''speechsynth'', resource = Some 1,
              control_channel = Some 3, engine_channel = Some \<lparr> ec_termination = Some 7 \<rparr>,
              state_machine = Some 4, ch_id = 0, ch_cmid = 0, waiting_for_channel = False,
              waiting_for_termination = False \<rparr>] \<rparr>"

definition response_for :: "mpf_command \<Rightarrow> termination_ptr \<Rightarrow> mpf_message" where
  "response_for c t =
     \<lparr> mpf_message_type = MPF_MESSAGE_TYPE_RESPONSE, command_id = c, has_context = True,
       m_termination = Some t, m_descriptor = None \<rparr>"

text \<open>
  The response names an RTP termination of the session whose slot does not wait, or it
  names no RTP termination but the termination of a channel that does not wait for it.
\<close>

definition unsolicited_rtp :: "mrcp_server_session \<Rightarrow> mpf_message \<Rightarrow> bool" where
  "unsolicited_rtp s m =
     (case mrcp_server_rtp_termination_find s (m_termination m) of
        None \<Rightarrow> False
      | Some i \<Rightarrow> \<not> waiting (s_terminations s ! i))"

definition unsolicited_channel :: "mrcp_server_session \<Rightarrow> mpf_message \<Rightarrow> bool" where
  "unsolicited_channel s m =
     (mrcp_server_rtp_termination_find s (m_termination m) = None \<and>
      (case mrcp_server_channel_termination_find s (m_termination m) of
         None \<Rightarrow> False
       | Some c \<Rightarrow> \<not> waiting_for_termination (channels s ! c)))"

text \<open>
  C9, as the code has it. A response to ADD, MODIFY or SUBTRACT TERMINATION that nobody
  waits for changes nothing: the session, with its counter of sub-requests and its answer,
  is what it was. The handler returns FALSE when the response names an RTP termination whose
  slot does not wait, and TRUE when it names the termination of a channel that does not wait
  for it.
\<close>

theorem unsolicited_termination_response:
  assumes "h = mrcp_server_on_termination_modify \<or> h = mrcp_server_on_termination_subtract"
  shows "(unsolicited_rtp s m \<longrightarrow> h e (Some s) m = Some (False, Some s)) \<and>
         (unsolicited_channel s m \<longrightarrow> h e (Some s) m = Some (True, Some s)) \<and>
         (unsolicited_rtp s m \<or> unsolicited_channel s m \<longrightarrow>
          command_id m \<in> {MPF_ADD_TERMINATION, MPF_MODIFY_TERMINATION, MPF_SUBTRACT_TERMINATION} \<longrightarrow>
          mpf_message_type m = MPF_MESSAGE_TYPE_RESPONSE \<longrightarrow> has_context m \<longrightarrow>
          mpf_message_process_one e m s = Some s)"
proof -
  have a: "unsolicited_rtp s m \<Longrightarrow>
      mrcp_server_on_termination_modify e (Some s) m = Some (False, Some s) \<and>
      mrcp_server_on_termination_subtract e (Some s) m = Some (False, Some s)"
    by (auto simp: unsolicited_rtp_def mrcp_server_on_termination_modify_def
          mrcp_server_on_termination_subtract_def split: option.splits)
  have b: "unsolicited_channel s m \<Longrightarrow>
      mrcp_server_on_termination_modify e (Some s) m = Some (True, Some s) \<and>
      mrcp_server_on_termination_subtract e (Some s) m = Some (True, Some s)"
    by (auto simp: unsolicited_channel_def mrcp_server_on_termination_modify_def
          mrcp_server_on_termination_subtract_def split: option.splits)
  have c: "mpf_message_process_one e m s = Some s"
    if "unsolicited_rtp s m \<or> unsolicited_channel s m"
      "command_id m \<in> {MPF_ADD_TERMINATION, MPF_MODIFY_TERMINATION, MPF_SUBTRACT_TERMINATION}"
      "mpf_message_type m = MPF_MESSAGE_TYPE_RESPONSE" "has_context m"
    using that a b by (auto simp: mpf_message_process_one_def)
  from assms a b c show ?thesis by blast
qed

theorem unsolicited_termination_response_witness:
  "unsolicited_rtp settled_session (response_for MPF_SUBTRACT_TERMINATION 11) \<and>
   mrcp_server_on_termination_subtract env_ok (Some settled_session)
     (response_for MPF_SUBTRACT_TERMINATION 11) = Some (False, Some settled_session) \<and>
   unsolicited_channel settled_session (response_for MPF_SUBTRACT_TERMINATION 7) \<and>
   mpf_message_process_one env_ok (response_for MPF_SUBTRACT_TERMINATION 7) settled_session =
     Some settled_session"
proof -
  have r: "unsolicited_rtp settled_session (response_for MPF_SUBTRACT_TERMINATION 11)"
    by (simp add: unsolicited_rtp_def settled_session_def response_for_def
          mrcp_server_rtp_termination_find_def)
  have c: "unsolicited_channel settled_session (response_for MPF_SUBTRACT_TERMINATION 7)"
    by (simp add: unsolicited_channel_def settled_session_def response_for_def
          mrcp_server_rtp_termination_find_def mrcp_server_channel_termination_find_def)
  have k: "command_id (response_for MPF_SUBTRACT_TERMINATION 7) = MPF_SUBTRACT_TERMINATION"
    "mpf_message_type (response_for MPF_SUBTRACT_TERMINATION 7) = MPF_MESSAGE_TYPE_RESPONSE"
    "has_context (response_for MPF_SUBTRACT_TERMINATION 7)"
    by (simp_all add: response_for_def)
  from unsolicited_termination_response
         [of mrcp_server_on_termination_subtract settled_session
             "response_for MPF_SUBTRACT_TERMINATION 11" env_ok]
       unsolicited_termination_response
         [of mrcp_server_on_termination_subtract settled_session
             "response_for MPF_SUBTRACT_TERMINATION 7" env_ok]
       r c k
  show ?thesis by simp
qed

text \<open>
  The handler does not return FALSE for the channel: the response to the subtraction of the
  termination 7, which the channel does not wait for, is answered with TRUE.
\<close>

theorem unsolicited_termination_response_counterexample:
  "unsolicited_channel settled_session (response_for MPF_SUBTRACT_TERMINATION 7) \<and>
   map_option fst (mrcp_server_on_termination_subtract env_ok (Some settled_session)
     (response_for MPF_SUBTRACT_TERMINATION 7)) = Some True \<and>
   map_option fst (mrcp_server_on_termination_modify env_ok (Some settled_session)
     (response_for MPF_ADD_TERMINATION 7)) = Some True"
  by (simp add: unsolicited_channel_def settled_session_def response_for_def
        mrcp_server_rtp_termination_find_def mrcp_server_channel_termination_find_def
        mrcp_server_on_termination_subtract_def mrcp_server_on_termination_modify_def)


subsection \<open>Resources that cannot be served\<close>

text \<open>
  C7. While an offer is processed (the session then has an answer descriptor \<open>a\<close>),
  \<open>mrcp_server_channel_create\<close> always returns a channel. The channel has no resource exactly
  when the name is missing or resolves to no resource; the status of the answer is then
  NO SUCH RESOURCE and the channel has no engine channel. When the resource is found but no
  engine channel could be created, the status is UNACCEPTABLE RESOURCE; when the engine
  channel is there, the answer is untouched. And when the opening of an engine channel
  completes with a failure, the status is set to UNAVAILABLE RESOURCE before the completion
  is counted.
\<close>

theorem resource_failures_set_the_status:
  assumes "answer s = Some a"
  shows "(\<exists>ch s'. mrcp_server_channel_create e name i m s = Some (ch, s') \<and>
            (resource ch = None) =
              (case name of None \<Rightarrow> True | Some n \<Rightarrow> resource_get e n = None) \<and>
            (resource ch = None \<longrightarrow>
               engine_channel ch = None \<and>
               s' = s\<lparr> answer := Some (a\<lparr> status := MRCP_SESSION_STATUS_NO_SUCH_RESOURCE \<rparr>) \<rparr>) \<and>
            (resource ch \<noteq> None \<and> engine_channel ch = None \<longrightarrow>
               answer s' = Some (a\<lparr> status := MRCP_SESSION_STATUS_UNACCEPTABLE_RESOURCE \<rparr>)) \<and>
            (engine_channel ch \<noteq> None \<longrightarrow> answer s' = Some a)) \<and>
         mrcp_server_on_engine_channel_open e c False s =
           mrcp_server_session_subrequest_remove e
             (s\<lparr> answer := Some (a\<lparr> status := MRCP_SESSION_STATUS_UNAVAILABLE_RESOURCE \<rparr>) \<rparr>)"
proof -
  have "\<exists>ch s'. mrcp_server_channel_create e name i m s = Some (ch, s') \<and>
            (resource ch = None) =
              (case name of None \<Rightarrow> True | Some n \<Rightarrow> resource_get e n = None) \<and>
            (resource ch = None \<longrightarrow>
               engine_channel ch = None \<and>
               s' = s\<lparr> answer := Some (a\<lparr> status := MRCP_SESSION_STATUS_NO_SUCH_RESOURCE \<rparr>) \<rparr>) \<and>
            (resource ch \<noteq> None \<and> engine_channel ch = None \<longrightarrow>
               answer s' = Some (a\<lparr> status := MRCP_SESSION_STATUS_UNACCEPTABLE_RESOURCE \<rparr>)) \<and>
            (engine_channel ch \<noteq> None \<longrightarrow> answer s' = Some a)"
  proof (cases name)
    case None
    with assms show ?thesis
      by (simp add: mrcp_server_channel_create_def answer_write_def)
  next
    case (Some n)
    show ?thesis
    proof (cases "resource_get e n")
      case None
      with Some assms show ?thesis
        by (simp add: mrcp_server_channel_create_def answer_write_def)
    next
      case r: (Some r)
      with Some assms show ?thesis
        by (auto simp: mrcp_server_channel_create_def answer_write_def split_beta Let_def
              mrcp_server_engine_channel_create_def split: option.splits)
    qed
  qed
  moreover have "mrcp_server_on_engine_channel_open e c False s =
      mrcp_server_session_subrequest_remove e
        (s\<lparr> answer := Some (a\<lparr> status := MRCP_SESSION_STATUS_UNAVAILABLE_RESOURCE \<rparr>) \<rparr>)"
    using assms by (simp add: mrcp_server_on_engine_channel_open_def answer_write_def)
  ultimately show ?thesis by blast
qed

theorem resource_failures_set_the_status_witness:
  "answer waiting_session = Some offer_empty \<and>
   map_option (\<lambda>(ch, s'). (resource ch, engine_channel ch, answer s'))
     (mrcp_server_channel_create env_ok (Some ''recorder'') 0 0 waiting_session) =
     Some (None, None, Some (offer_empty\<lparr> status := MRCP_SESSION_STATUS_NO_SUCH_RESOURCE \<rparr>)) \<and>
   mrcp_server_on_engine_channel_open env_ok 0 False waiting_session =
     Some (waiting_session
             \<lparr> answer := Some (offer_empty\<lparr> status := MRCP_SESSION_STATUS_UNAVAILABLE_RESOURCE \<rparr>),
               subrequest_count := 1 \<rparr>)"
proof -
  have a: "answer waiting_session = Some offer_empty"
    by (simp add: waiting_session_def)
  have r: "resource_get env_ok ''recorder'' = None"
    by (simp add: env_ok_def)
  have d: "mrcp_server_session_subrequest_remove env_ok
             (waiting_session
                \<lparr> answer := Some (offer_empty\<lparr> status := MRCP_SESSION_STATUS_UNAVAILABLE_RESOURCE \<rparr>) \<rparr>) =
           Some (waiting_session
             \<lparr> answer := Some (offer_empty\<lparr> status := MRCP_SESSION_STATUS_UNAVAILABLE_RESOURCE \<rparr>),
               subrequest_count := 1 \<rparr>)"
    by (simp add: mrcp_server_session_subrequest_remove_def waiting_session_def size_dec_def
          mrcp_server_session_create_def)
  from resource_failures_set_the_status [OF a, of env_ok "Some ''recorder''" 0 0 0] a r d
  show ?thesis by auto
qed

subsection \<open>An MRCPv1 offer for a resource that is not known\<close>

text \<open>
  The processing of the resource of an offer fails: a resource is asked for, no channel of
  the session has its name, and the name is missing or resolves to no resource.
\<close>

definition resource_fails :: "env \<Rightarrow> mrcp_session_descriptor \<Rightarrow> mrcp_server_session \<Rightarrow> bool" where
  "resource_fails e d s =
     (resource_state d \<and> mrcp_server_channel_find e s (resource_name d) = None \<and>
      (case resource_name d of None \<Rightarrow> True | Some n \<Rightarrow> resource_get e n = None))"

lemma resource_offer_process_fails_iff:
  assumes "answer s \<noteq> None"
  shows "(\<exists>d' s'. mrcp_server_resource_offer_process e d s = Some (False, d', s')) =
         resource_fails e d s"
proof -
  from assms obtain a where a: "answer s = Some a" by auto
  show ?thesis
  proof (cases "resource_state d \<and> mrcp_server_channel_find e s (resource_name d) = None")
    case False
    then show ?thesis
      by (auto simp: mrcp_server_resource_offer_process_def resource_fails_def
               split: option.splits)
  next
    case True
    show ?thesis
    proof (cases "case resource_name d of None \<Rightarrow> True | Some n \<Rightarrow> resource_get e n = None")
      case t: True
      with True a show ?thesis
        by (auto simp: mrcp_server_resource_offer_process_def resource_fails_def
              mrcp_server_channel_create_def answer_write_def split: option.splits)
    next
      case f: False
      then obtain n r where n: "resource_name d = Some n" "resource_get e n = Some r"
        by (auto split: option.splits)
      with True a show ?thesis
        by (auto simp: mrcp_server_resource_offer_process_def resource_fails_def
              mrcp_server_channel_create_def answer_write_def split_beta Let_def
              split: option.splits)
    qed
  qed
qed

lemma resource_offer_process_fails:
  assumes "answer s = Some a" "resource_fails e d s"
  shows "mrcp_server_resource_offer_process e d s =
         Some (False, d, s\<lparr> answer := Some (a\<lparr> status := MRCP_SESSION_STATUS_NO_SUCH_RESOURCE \<rparr>) \<rparr>)"
  using assms
  by (auto simp: mrcp_server_resource_offer_process_def resource_fails_def
        mrcp_server_channel_create_def answer_write_def split: option.splits)

text \<open>The commands that reset the associations and apply the topology.\<close>

definition topology_commands :: "mpf_request set" where
  "topology_commands =
     {Topology_request MPF_RESET_ASSOCIATIONS, Topology_request MPF_APPLY_TOPOLOGY}"

text \<open>
  C10. Let an MRCPv1 session be offered a resource whose processing fails. Then the offer
  is processed to its end, the answer that is left says that the resource is not there
  (resource state FALSE, status NO SUCH RESOURCE), and nothing was done for the audio media:
  the RTP terminations and the channels of the session are what they were, the session and
  the media context may have been added, and after that the one action is the sending of the
  batch, which holds what it held before and the two commands of the topology at most: no
  termination was created, no command about a termination or an association was batched.
\<close>

theorem failed_resource_skips_audio:
  assumes "version s = MRCP_VERSION_1" and "resource_fails e d s"
  shows "\<exists>t pre batch.
           offer_body e d s = Some t \<and>
           answer t = Some ((mrcp_session_answer_create d)
                              \<lparr> status := MRCP_SESSION_STATUS_NO_SUCH_RESOURCE,
                                resource_state := False \<rparr>) \<and>
           s_terminations t = s_terminations s \<and> channels t = channels s \<and>
           out t = out s @ pre @ [Mpf_message_send batch] \<and>
           set pre \<subseteq> {Session_add, Context_create} \<and>
           set batch \<subseteq> set (mpf_task_msg s) \<union> topology_commands"
proof -
  define s3 where "s3 = offer_begin e d s"
  define s5 where "s5 =
    (if fst (mpf_engine_message_add e (Topology_request MPF_RESET_ASSOCIATIONS) s3)
     then mrcp_server_session_subrequest_add
            (snd (mpf_engine_message_add e (Topology_request MPF_RESET_ASSOCIATIONS) s3))
     else snd (mpf_engine_message_add e (Topology_request MPF_RESET_ASSOCIATIONS) s3))"
  define a where "a = mrcp_session_answer_create d"
  define s6 where "s6 = s5\<lparr> answer := Some (a\<lparr> status := MRCP_SESSION_STATUS_NO_SUCH_RESOURCE,
                                                resource_state := False \<rparr>) \<rparr>"
  have p3: "version s3 = version s" "channels s3 = channels s"
    "s_terminations s3 = s_terminations s" "answer s3 = Some a"
    "\<exists>pre. out s3 = out s @ pre \<and> set pre \<subseteq> {Session_add, Context_create}"
    "mpf_task_msg s3 = mpf_task_msg s"
    by (auto simp: s3_def a_def offer_begin_def mrcp_server_session_state_set_def Let_def emit_def)
  have p5: "version s5 = version s" "channels s5 = channels s"
    "s_terminations s5 = s_terminations s" "answer s5 = Some a" "out s5 = out s3"
    "set (mpf_task_msg s5) \<subseteq> set (mpf_task_msg s) \<union> topology_commands"
    using p3
    by (auto simp: s5_def mpf_engine_message_add_def mrcp_server_session_subrequest_add_def
          topology_commands_def)
  have f5: "resource_fails e d s5"
    using assms(2) p5(2) by (simp add: resource_fails_def mrcp_server_channel_find_def)
  have m: "offer_media e d s5 = Some s6"
    using p5(1,4) assms(1) resource_offer_process_fails [OF p5(4) f5]
    by (simp add: offer_media_def answer_write_def s6_def)
  have body: "offer_body e d s =
    Some (mpf_engine_message_send
            (if fst (mpf_engine_message_add e (Topology_request MPF_APPLY_TOPOLOGY) s6)
             then mrcp_server_session_subrequest_add
                    (snd (mpf_engine_message_add e (Topology_request MPF_APPLY_TOPOLOGY) s6))
             else snd (mpf_engine_message_add e (Topology_request MPF_APPLY_TOPOLOGY) s6)))"
    using m unfolding offer_body_def s5_def s3_def
    by (simp add: split_beta Let_def)
  define t where "t = mpf_engine_message_send
            (if fst (mpf_engine_message_add e (Topology_request MPF_APPLY_TOPOLOGY) s6)
             then mrcp_server_session_subrequest_add
                    (snd (mpf_engine_message_add e (Topology_request MPF_APPLY_TOPOLOGY) s6))
             else snd (mpf_engine_message_add e (Topology_request MPF_APPLY_TOPOLOGY) s6))"
  have p6: "channels s6 = channels s" "s_terminations s6 = s_terminations s" "out s6 = out s3"
    "set (mpf_task_msg s6) \<subseteq> set (mpf_task_msg s) \<union> topology_commands"
    "answer s6 = Some (a\<lparr> status := MRCP_SESSION_STATUS_NO_SUCH_RESOURCE,
                          resource_state := False \<rparr>)"
    using p5 by (simp_all add: s6_def)
  have pt: "channels t = channels s" "s_terminations t = s_terminations s"
    "answer t = Some (a\<lparr> status := MRCP_SESSION_STATUS_NO_SUCH_RESOURCE,
                         resource_state := False \<rparr>)"
    "\<exists>batch. out t = out s3 @ [Mpf_message_send batch] \<and>
             set batch \<subseteq> set (mpf_task_msg s) \<union> topology_commands"
    using p6
    by (auto simp: t_def mpf_engine_message_send_def mpf_engine_message_add_def emit_def
          mrcp_server_session_subrequest_add_def topology_commands_def)
  from pt(4) p3(5) obtain pre batch where
    "out t = out s @ pre @ [Mpf_message_send batch]"
    "set pre \<subseteq> {Session_add, Context_create}"
    "set batch \<subseteq> set (mpf_task_msg s) \<union> topology_commands"
    by auto
  with pt(1-3) body show ?thesis
    unfolding t_def [symmetric] a_def by blast
qed

text \<open>An MRCPv1 session that has not seen an offer, and an offer for a recorder with one
  audio line.\<close>

definition fresh_v1 :: mrcp_server_session where
  "fresh_v1 = mrcp_server_session_create MRCP_VERSION_1"

definition offer_recorder :: mrcp_session_descriptor where
  "offer_recorder =
     offer_empty
       \<lparr> resource_name := Some ''recorder'', resource_state := True,
         audio_media_arr :=
           [Some \<lparr> md_ip = ''10.0.0.1'', md_ext_ip = [], md_mid = 1,
                   md_mode = STREAM_MODE_SEND \<rparr>] \<rparr>"

theorem failed_resource_skips_audio_witness:
  "version fresh_v1 = MRCP_VERSION_1 \<and> resource_fails env_ok offer_recorder fresh_v1 \<and>
   map_option out (offer_body env_ok offer_recorder fresh_v1) =
     Some [Session_add, Context_create,
           Mpf_message_send [Topology_request MPF_RESET_ASSOCIATIONS,
                             Topology_request MPF_APPLY_TOPOLOGY]] \<and>
   map_option s_terminations (offer_body env_ok offer_recorder fresh_v1) = Some []"
proof -
  have v: "version fresh_v1 = MRCP_VERSION_1"
    by (simp add: fresh_v1_def mrcp_server_session_create_def)
  have f: "resource_fails env_ok offer_recorder fresh_v1"
    by (simp add: resource_fails_def fresh_v1_def mrcp_server_session_create_def
          offer_recorder_def offer_empty_def env_ok_def mrcp_server_channel_find_def)
  have o: "out fresh_v1 = []" "s_terminations fresh_v1 = []" "mpf_task_msg fresh_v1 = []"
    by (simp_all add: fresh_v1_def mrcp_server_session_create_def)
  from failed_resource_skips_audio [OF v f] obtain t pre batch where
    t: "offer_body env_ok offer_recorder fresh_v1 = Some t"
      "s_terminations t = s_terminations fresh_v1"
    by blast
  have "map_option out (offer_body env_ok offer_recorder fresh_v1) =
     Some [Session_add, Context_create,
           Mpf_message_send [Topology_request MPF_RESET_ASSOCIATIONS,
                             Topology_request MPF_APPLY_TOPOLOGY]]"
    by (simp add: offer_body_def offer_begin_def offer_media_def fresh_v1_def
          mrcp_server_session_create_def offer_recorder_def offer_empty_def env_ok_def
          mrcp_server_session_state_set_def mpf_engine_message_add_def
          mrcp_server_session_subrequest_add_def mrcp_server_resource_offer_process_def
          mrcp_server_channel_find_def mrcp_server_channel_create_def answer_write_def
          mrcp_session_answer_create_def mpf_engine_message_send_def emit_def Let_def
          size_inc_def)
  with v f t o show ?thesis by simp
qed

subsection \<open>The session as a machine driven by events\<close>

definition mrcp_server_on_disconnect :: "nat \<Rightarrow> mrcp_server_session \<Rightarrow> bool \<times> mrcp_server_session" where
  "mrcp_server_on_disconnect channel s = (True, s)"

text \<open>
  What can happen to a session: a signaling message arrives, or one of the collaborators
  calls back. The messages of a container handed to \<open>mrcp_server_mpf_message_process\<close> are
  events one by one.
\<close>

datatype event =
  Signaling mrcp_signaling_message
  | Channel_modify nat "mrcp_control_descriptor option"
  | Channel_remove nat
  | Channel_message nat mrcp_message
  | Disconnect nat
  | Engine_channel_opened nat bool
  | Engine_channel_closed nat
  | Engine_channel_message nat mrcp_message
  | Mpf_response mpf_message
  | State_machine_dispatch nat mrcp_message
  | State_machine_deactivated nat

fun step :: "env \<Rightarrow> event \<Rightarrow> mrcp_server_session \<Rightarrow> mrcp_server_session option" where
  "step e (Signaling m) s = mrcp_server_signaling_message_process e m s"
| "step e (Channel_modify c a) s = map_option snd (mrcp_server_on_channel_modify e c a s)"
| "step e (Channel_remove c) s = map_option snd (mrcp_server_on_channel_remove e c s)"
| "step e (Channel_message c m) s = mrcp_server_on_channel_message e c m s"
| "step e (Disconnect c) s = Some (snd (mrcp_server_on_disconnect c s))"
| "step e (Engine_channel_opened c b) s = mrcp_server_on_engine_channel_open e c b s"
| "step e (Engine_channel_closed c) s = mrcp_server_on_engine_channel_close e c s"
| "step e (Engine_channel_message c m) s =
     Some (snd (mrcp_server_on_engine_channel_message e c m s))"
| "step e (Mpf_response m) s = mpf_message_process_one e m s"
| "step e (State_machine_dispatch c m) s = state_machine_on_message_dispatch e c m s"
| "step e (State_machine_deactivated c) s = state_machine_on_deactivate e c s"

definition run :: "env \<Rightarrow> event list \<Rightarrow> mrcp_server_session \<Rightarrow> mrcp_server_session option" where
  "run e evs s = foldM (step e) evs s"


subsection \<open>One active message, the others in a queue\<close>

text \<open>
  An action completes the active message when it is the answer to an offer or an MRCP
  response sent to the client. The line of a session is its active message and its queue;
  \<open>pop\<close> makes the head of the queue the active message, or leaves no active message when
  the queue is empty.
\<close>

definition completion :: "action \<Rightarrow> bool" where
  "completion a =
     (case a of
        Session_answer d \<Rightarrow> True
      | Session_control_response m \<Rightarrow> message_type m = MRCP_MESSAGE_TYPE_RESPONSE
      | Control_message_send c m \<Rightarrow> message_type m = MRCP_MESSAGE_TYPE_RESPONSE
      | _ \<Rightarrow> False)"

definition pop ::
  "mrcp_signaling_message option \<times> mrcp_signaling_message list \<Rightarrow>
   mrcp_signaling_message option \<times> mrcp_signaling_message list" where
  "pop l = (case snd l of [] \<Rightarrow> (None, []) | m # q \<Rightarrow> (Some m, q))"

definition line ::
  "mrcp_server_session \<Rightarrow> mrcp_signaling_message option \<times> mrcp_signaling_message list" where
  "line s = (active_request s, request_queue s)"

text \<open>The actions done between \<open>s\<close> and a later \<open>s'\<close>.\<close>

definition news :: "mrcp_server_session \<Rightarrow> mrcp_server_session \<Rightarrow> action list" where
  "news s s' = drop (length (out s)) (out s')"

text \<open>
  From \<open>s\<close> to \<open>s'\<close> the line moves in step with the completions: the actions of \<open>s\<close> are
  still there, and the line was popped once for every completing action done since.
\<close>

definition paced :: "mrcp_server_session \<Rightarrow> mrcp_server_session \<Rightarrow> bool" where
  "paced s s' =
     (take (length (out s)) (out s') = out s \<and>
      line s' = (pop ^^ length (filter completion (news s s'))) (line s))"

text \<open>
  Of the actions \<open>tr\<close>, the first that is an answer, a terminate response or a response to
  the client is an answer, if there is one.
\<close>

definition answer_first :: "action list \<Rightarrow> bool" where
  "answer_first tr =
     (case dropWhile silent tr of
        [] \<Rightarrow> True
      | a # rest \<Rightarrow> (case a of Session_answer d \<Rightarrow> True | _ \<Rightarrow> False))"

definition arrival :: "event \<Rightarrow> bool" where
  "arrival ev = (case ev of Signaling m \<Rightarrow> True | Channel_message c m \<Rightarrow> True | _ \<Rightarrow> False)"

definition response_callback :: "event \<Rightarrow> bool" where
  "response_callback ev =
     (case ev of
        State_machine_dispatch c m \<Rightarrow> message_type m = MRCP_MESSAGE_TYPE_RESPONSE
      | _ \<Rightarrow> False)"

lemma silent_not_completion: "silent a \<Longrightarrow> \<not> completion a"
  by (cases a) (simp_all add: silent_def completion_def)

lemma paced_iff:
  "paced s s' =
     (\<exists>tr. out s' = out s @ tr \<and> line s' = (pop ^^ length (filter completion tr)) (line s))"
proof
  assume p: "paced s s'"
  then have "out s' = out s @ news s s'"
    unfolding paced_def news_def by (metis append_take_drop_id)
  with p show "\<exists>tr. out s' = out s @ tr \<and>
      line s' = (pop ^^ length (filter completion tr)) (line s)"
    unfolding paced_def by blast
next
  assume "\<exists>tr. out s' = out s @ tr \<and>
      line s' = (pop ^^ length (filter completion tr)) (line s)"
  then show "paced s s'"
    by (auto simp: paced_def news_def)
qed

lemma paced_refl [simp]: "paced s s"
  by (simp add: paced_iff)

lemma paced_trans:
  assumes "paced s s'" "paced s' s''"
  shows "paced s s''"
proof -
  from assms(1) obtain tr1 where 1: "out s' = out s @ tr1"
    "line s' = (pop ^^ length (filter completion tr1)) (line s)"
    unfolding paced_iff by blast
  from assms(2) obtain tr2 where 2: "out s'' = out s' @ tr2"
    "line s'' = (pop ^^ length (filter completion tr2)) (line s')"
    unfolding paced_iff by blast
  have "out s'' = out s @ (tr1 @ tr2)" using 1 2 by simp
  moreover have "(pop ^^ (length (filter completion tr2) + length (filter completion tr1)))
        (line s) = line s''"
    using 1 2 by (simp add: funpow_add)
  then have "line s'' = (pop ^^ length (filter completion (tr1 @ tr2))) (line s)"
    by (simp add: add.commute)
  ultimately show ?thesis unfolding paced_iff by blast
qed

lemma paced_ext: "paced s s' \<Longrightarrow> \<exists>tr. out s' = out s @ tr"
  unfolding paced_iff by blast

lemma steady_paced:
  assumes "steady p s s'" and "\<And>a. p a \<Longrightarrow> \<not> completion a"
  shows "paced s s'"
proof -
  from assms(1) obtain tr where tr: "out s' = out s @ tr" "list_all p tr"
    and l: "line s' = line s"
    unfolding steady_def line_def by auto
  from tr(2) assms(2) have "filter completion tr = []"
    by (auto simp: list_all_iff filter_empty_conv)
  with tr(1) l show ?thesis unfolding paced_iff by auto
qed

lemma calm_paced: "calm s s' \<Longrightarrow> paced s s'"
  by (rule steady_paced [OF calm_steady silent_not_completion])

text \<open>Terminating and deactivating do no completing action and leave the line alone.\<close>

definition mild :: "action \<Rightarrow> bool" where
  "mild a = (\<not> completion a)"

lemma steady_calm:
  assumes "steady p s t" "calm t t'" "\<And>a. silent a \<Longrightarrow> p a"
  shows "steady p s t'"
  by (rule steady_trans [OF assms(1) steady_mono [OF calm_steady [OF assms(2)] assms(3)]])

lemma silent_mild: "silent a \<Longrightarrow> mild a"
  by (simp add: mild_def silent_not_completion)

lemma steady_state_set: "steady p s (mrcp_server_session_state_set st s)"
  by (simp add: steady_def mrcp_server_session_state_set_def)

lemma calm_terminate_send_channel: "calm s t \<Longrightarrow> calm s (terminate_send_channel i t)"
  by (auto simp: terminate_send_channel_def Let_def silent_def intro!: calm_steps)

lemma calm_terminate_process_channel: "calm s t \<Longrightarrow> calm s (terminate_process_channel e i t)"
  by (auto simp: terminate_process_channel_def split_beta Let_def silent_def
           split: option.splits intro!: calm_steps)

lemma calm_terminate_process_slot: "calm s t \<Longrightarrow> calm s (terminate_process_slot e i t)"
  by (auto simp: terminate_process_slot_def split_beta Let_def intro!: calm_steps)

lemma calm_deactivate_channel: "calm s t \<Longrightarrow> calm s (deactivate_channel e i t)"
  by (auto simp: deactivate_channel_def split_beta Let_def silent_def intro!: calm_steps)

lemma steady_terminate_send: "steady mild s (mrcp_server_session_terminate_send s)"
proof -
  have "calm s (fold terminate_send_channel [0..<length (channels s)] s)"
    by (rule calm_fold) (auto intro: calm_terminate_send_channel)
  then have "steady mild s (fold terminate_send_channel [0..<length (channels s)] s)"
    by (rule steady_mono [OF calm_steady silent_mild])
  then show ?thesis
    by (auto simp: mrcp_server_session_terminate_send_def steady_def emit_def mild_def
          completion_def)
qed

lemma steady_terminate_process: "steady mild s (mrcp_server_session_terminate_process e s)"
proof -
  define s1 where "s1 = mrcp_server_session_state_set SESSION_STATE_TERMINATING s"
  define s6 where "s6 = emit Session_remove
    (let s2 = (if media_context s1 \<noteq> None then
                  (let (b, s') = mpf_engine_message_add e
                         (Topology_request MPF_RESET_ASSOCIATIONS) s1 in
                   if b then mrcp_server_session_subrequest_add s' else s')
                else s1);
          s3 = fold (terminate_process_channel e) [0..<length (channels s2)] s2;
          s4 = fold (terminate_process_slot e) [0..<length (s_terminations s3)] s3
     in if media_context s4 \<noteq> None then mpf_engine_message_send s4 else s4)"
  have 1: "steady mild s s1" unfolding s1_def by (rule steady_state_set)
  have "calm s1 s6"
    unfolding s6_def
    by (auto simp: split_beta Let_def silent_def
          intro!: calm_steps calm_fold calm_terminate_process_channel calm_terminate_process_slot)
  with 1 have 6: "steady mild s s6" by (rule steady_calm) (rule silent_mild)
  have "mrcp_server_session_terminate_process e s =
        (if subrequest_count s6 = 0 then mrcp_server_session_terminate_send s6 else s6)"
    unfolding mrcp_server_session_terminate_process_def s6_def s1_def
    by (simp add: Let_def)
  with 6 steady_trans [OF 6 steady_terminate_send] show ?thesis by simp
qed

lemma steady_deactivate: "steady mild s (mrcp_server_session_deactivate e s)"
proof -
  define s1 where "s1 = mrcp_server_session_state_set SESSION_STATE_DEACTIVATING s"
  define s2 where "s2 = fold (deactivate_channel e) [0..<length (channels s1)] s1"
  have 1: "steady mild s s1" unfolding s1_def by (rule steady_state_set)
  have "calm s1 s2" unfolding s2_def
    by (rule calm_fold) (auto intro: calm_deactivate_channel)
  with 1 have 2: "steady mild s s2" by (rule steady_calm) (rule silent_mild)
  have "mrcp_server_session_deactivate e s =
        (if subrequest_count s2 = 0 then mrcp_server_session_terminate_process e s2 else s2)"
    unfolding mrcp_server_session_deactivate_def s2_def s1_def by (simp add: Let_def)
  with 2 steady_trans [OF 2 steady_terminate_process] show ?thesis by simp
qed

lemma mild_not_completion: "mild a \<Longrightarrow> \<not> completion a"
  by (simp add: mild_def)

lemma paced_terminate_send: "paced s (mrcp_server_session_terminate_send s)"
  by (rule steady_paced [OF steady_terminate_send mild_not_completion])

lemma paced_terminate_process: "paced s (mrcp_server_session_terminate_process e s)"
  by (rule steady_paced [OF steady_terminate_process mild_not_completion])

lemma paced_deactivate: "paced s (mrcp_server_session_deactivate e s)"
  by (rule steady_paced [OF steady_deactivate mild_not_completion])

lemma calm_on_message_receive:
  "calm s t \<Longrightarrow> calm s (snd (mrcp_server_on_message_receive e c m t))"
  by (auto simp: mrcp_server_on_message_receive_def silent_def split: option.splits
           intro!: calm_steps)

text \<open>A completing action followed by a pop.\<close>

lemma paced_complete:
  assumes "completion a" "out t = out s @ [a]" "line t = pop (line s)"
  shows "paced s t"
  unfolding paced_iff using assms by (intro exI [of _ "[a]"]) simp

lemma paced_answer_send_dispatch_offer_process:
  shows "mrcp_server_session_answer_send e s = Some s' \<Longrightarrow> paced s s'"
    and "mrcp_server_signaling_message_dispatch e m s = Some s' \<Longrightarrow> paced s s'"
    and "mrcp_server_session_offer_process e d s = Some s' \<Longrightarrow> paced s s'"
proof (induction e s and e m s and e d s arbitrary: s' and s' and s'
    rule: mrcp_server_session_answer_send_mrcp_server_signaling_message_dispatch_mrcp_server_session_offer_process.induct)
  case (1 e s)
  from "1.prems" obtain a where a: "answer s = Some a"
    by (auto simp: mrcp_server_session_answer_send.simps split: option.splits)
  define s1 where "s1 = (emit (Session_answer a) s)\<lparr> offer := None, answer := None \<rparr>"
  show ?case
  proof (cases "request_queue s1")
    case Nil
    with "1.prems" a have s': "s' = s1\<lparr> active_request := None \<rparr>"
      by (simp add: mrcp_server_session_answer_send.simps s1_def)
    show ?thesis
      by (rule paced_complete [of "Session_answer a"])
         (use Nil in \<open>simp_all add: s' s1_def emit_def completion_def line_def pop_def\<close>)
  next
    case (Cons m q)
    define t where "t = s1\<lparr> active_request := Some m, request_queue := q \<rparr>"
    from "1.prems" a Cons have d: "mrcp_server_signaling_message_dispatch e m t = Some s'"
      by (simp add: mrcp_server_session_answer_send.simps s1_def t_def)
    have "paced t s'"
      unfolding t_def by (rule "1.IH" [OF a s1_def Cons d [unfolded t_def]])
    moreover have "paced s t"
      by (rule paced_complete [of "Session_answer a"])
         (use Cons in \<open>simp_all add: t_def s1_def emit_def completion_def line_def pop_def\<close>)
    ultimately show ?thesis by (rule paced_trans [rotated])
  qed
next
  case (2 e signaling_message s)
  show ?case
  proof (cases signaling_message)
    case (SIGNALING_MESSAGE_OFFER d)
    with "2.prems" have "mrcp_server_session_offer_process e d s = Some s'"
      by (simp add: mrcp_server_signaling_message_dispatch.simps)
    then show ?thesis by (rule "2.IH" [OF SIGNALING_MESSAGE_OFFER])
  next
    case (SIGNALING_MESSAGE_CONTROL c msg)
    with "2.prems" have "s' = snd (mrcp_server_on_message_receive e c msg s)"
      by (simp add: mrcp_server_signaling_message_dispatch.simps)
    then show ?thesis
      using calm_on_message_receive [OF calm_refl, of s e c msg] by (simp add: calm_paced)
  next
    case SIGNALING_MESSAGE_TERMINATE
    with "2.prems" have "s' = mrcp_server_session_deactivate e s"
      by (simp add: mrcp_server_signaling_message_dispatch.simps)
    then show ?thesis by (simp add: paced_deactivate)
  qed
next
  case (3 e descriptor s)
  from "3.prems" obtain t where t: "offer_body e descriptor s = Some t"
    by (auto simp: mrcp_server_session_offer_process.simps split: option.splits)
  have st: "paced s t"
    by (rule steady_paced [OF conjunct1 [OF offer_body_steady [OF t]] silent_not_completion])
  show ?case
  proof (cases "subrequest_count t = 0")
    case True
    with "3.prems" t have "mrcp_server_session_answer_send e t = Some s'"
      by (simp add: mrcp_server_session_offer_process.simps)
    then have "paced t s'" by (rule "3.IH" [OF t True])
    with st show ?thesis by (rule paced_trans)
  next
    case False
    with "3.prems" t have "s' = t"
      by (simp add: mrcp_server_session_offer_process.simps)
    with st show ?thesis by simp
  qed
qed

lemma answer_send_first:
  assumes "mrcp_server_session_answer_send e s = Some s'"
  shows "\<exists>a tr. out s' = out s @ Session_answer a # tr"
proof -
  from assms obtain a where a: "answer s = Some a"
    by (auto simp: mrcp_server_session_answer_send.simps split: option.splits)
  define s1 where "s1 = (emit (Session_answer a) s)\<lparr> offer := None, answer := None \<rparr>"
  show ?thesis
  proof (cases "request_queue s1")
    case Nil
    with assms a have "s' = s1\<lparr> active_request := None \<rparr>"
      by (simp add: mrcp_server_session_answer_send.simps s1_def)
    then show ?thesis by (simp add: s1_def emit_def)
  next
    case (Cons m q)
    with assms a have "mrcp_server_signaling_message_dispatch e m
        (s1\<lparr> active_request := Some m, request_queue := q \<rparr>) = Some s'"
      by (simp add: mrcp_server_session_answer_send.simps s1_def)
    from paced_ext [OF paced_answer_send_dispatch_offer_process(2) [OF this]]
    show ?thesis by (auto simp: s1_def emit_def)
  qed
qed

lemma paced_subrequest_remove:
  assumes "mrcp_server_session_subrequest_remove e s = Some s'"
  shows "paced s s'"
proof (cases "subrequest_count s = 0")
  case True
  with assms show ?thesis by (simp add: mrcp_server_session_subrequest_remove_def)
next
  case False
  define s1 where "s1 = s\<lparr> subrequest_count := size_dec (subrequest_count s) \<rparr>"
  have 1: "paced s s1" by (simp add: paced_iff s1_def line_def)
  have "paced s1 s'"
  proof (cases "subrequest_count s1 = 0")
    case z: True
    show ?thesis
    proof (cases "state s1")
      case SESSION_STATE_NONE
      with assms False z show ?thesis
        by (simp add: mrcp_server_session_subrequest_remove_def s1_def)
    next
      case SESSION_STATE_ANSWERING
      with assms False z have "mrcp_server_session_answer_send e s1 = Some s'"
        by (simp add: mrcp_server_session_subrequest_remove_def s1_def)
      then show ?thesis by (rule paced_answer_send_dispatch_offer_process(1))
    next
      case SESSION_STATE_DEACTIVATING
      with assms False z have "s' = mrcp_server_session_terminate_process e s1"
        by (simp add: mrcp_server_session_subrequest_remove_def s1_def)
      then show ?thesis by (simp add: paced_terminate_process)
    next
      case SESSION_STATE_TERMINATING
      with assms False z have "s' = mrcp_server_session_terminate_send s1"
        by (simp add: mrcp_server_session_subrequest_remove_def s1_def)
      then show ?thesis by (simp add: paced_terminate_send)
    qed
  next
    case nz: False
    with assms False have "s' = s1"
      by (simp add: mrcp_server_session_subrequest_remove_def s1_def)
    then show ?thesis by simp
  qed
  with 1 show ?thesis by (rule paced_trans)
qed

text \<open>
  While an offer is answered, the completion of a sub-request leaves the session calm or
  sends the answer before anything else.
\<close>

definition answered :: "mrcp_server_session \<Rightarrow> mrcp_server_session \<Rightarrow> bool" where
  "answered s s' = (\<exists>a tr. out s' = out s @ Session_answer a # tr)"

lemma subrequest_remove_answering:
  assumes "mrcp_server_session_subrequest_remove e s = Some s'"
    and "state s = SESSION_STATE_ANSWERING"
  shows "calm s s' \<or> answered s s'"
proof (cases "subrequest_count s = 0")
  case True
  with assms show ?thesis by (simp add: mrcp_server_session_subrequest_remove_def)
next
  case False
  define s1 where "s1 = s\<lparr> subrequest_count := size_dec (subrequest_count s) \<rparr>"
  have 1: "calm s s1" "out s1 = out s" "state s1 = SESSION_STATE_ANSWERING"
    using assms(2) by (simp_all add: calm_def steady_def s1_def)
  show ?thesis
  proof (cases "subrequest_count s1 = 0")
    case z: True
    with assms False 1(3) have "mrcp_server_session_answer_send e s1 = Some s'"
      by (simp add: mrcp_server_session_subrequest_remove_def s1_def)
    from answer_send_first [OF this] 1(2) show ?thesis by (simp add: answered_def)
  next
    case nz: False
    with assms False have "s' = s1"
      by (simp add: mrcp_server_session_subrequest_remove_def s1_def)
    with 1 show ?thesis by simp
  qed
qed


text \<open>
  Every callback but the dispatch of a response is a calm beginning, followed or not by the
  completion of one sub-request.
\<close>

definition shape :: "env \<Rightarrow> mrcp_server_session \<Rightarrow> mrcp_server_session \<Rightarrow> bool" where
  "shape e s s' =
     (calm s s' \<or> (\<exists>t. calm s t \<and> mrcp_server_session_subrequest_remove e t = Some s'))"

lemma shape_calm: "calm s s' \<Longrightarrow> shape e s s'"
  by (simp add: shape_def)

lemma shape_remove:
  "calm s t \<Longrightarrow> mrcp_server_session_subrequest_remove e t = Some s' \<Longrightarrow> shape e s s'"
  by (auto simp: shape_def)

lemma shape_on_channel_modify:
  assumes "mrcp_server_on_channel_modify e c a s = Some (r, s')"
  shows "shape e s s'"
proof (cases "a = None \<or> \<not> waiting_for_channel (channels s ! c)")
  case True
  with assms have "s' = s"
    by (auto simp: mrcp_server_on_channel_modify_def split: option.splits)
  then show ?thesis by (simp add: shape_def)
next
  case False
  then obtain a' where a': "a = Some a'" and w: "waiting_for_channel (channels s ! c)"
    by auto
  from assms a' w obtain s1 where
    1: "answer_write
          (\<lambda>d. mrcp_session_control_media_set d (ch_id (channels s ! c))
                  (a'\<lparr> session_id := sid s \<rparr>))
          (channel_write c (\<lambda>ch. ch\<lparr> waiting_for_channel := False \<rparr>) s) = Some s1"
    and 2: "mrcp_server_session_subrequest_remove e s1 = Some s'"
    by (auto simp: mrcp_server_on_channel_modify_def split: option.splits)
  have "calm s s1"
    by (rule calm_answer_write [OF 1]) (rule calm_channel_write [OF calm_refl])
  then show ?thesis using 2 by (rule shape_remove)
qed

lemma shape_on_channel_remove:
  assumes "mrcp_server_on_channel_remove e c s = Some (r, s')"
  shows "shape e s s'"
proof (cases "waiting_for_channel (channels s ! c)")
  case False
  with assms have "s' = s" by (auto simp: mrcp_server_on_channel_remove_def)
  then show ?thesis by (simp add: shape_def)
next
  case True
  with assms have "mrcp_server_session_subrequest_remove e
      (channel_write c (\<lambda>ch. ch\<lparr> waiting_for_channel := False \<rparr>) s) = Some s'"
    by (auto simp: mrcp_server_on_channel_remove_def)
  with calm_channel_write [OF calm_refl] show ?thesis by (rule shape_remove)
qed

lemma shape_on_engine_channel_open:
  assumes "mrcp_server_on_engine_channel_open e c b s = Some s'"
  shows "shape e s s'"
proof -
  from assms obtain s1 where
    1: "(if \<not> b
         then answer_write (\<lambda>a. a\<lparr> status := MRCP_SESSION_STATUS_UNAVAILABLE_RESOURCE \<rparr>) s
         else Some s) = Some s1"
    and 2: "mrcp_server_session_subrequest_remove e s1 = Some s'"
    by (auto simp: mrcp_server_on_engine_channel_open_def split: option.splits)
  from 1 have "calm s s1"
    by (cases b) (auto elim: calm_answer_write)
  then show ?thesis using 2 by (rule shape_remove)
qed

lemma shape_termination_tail:
  assumes "(case mrcp_server_channel_termination_find s x of
              Some c \<Rightarrow>
                if waiting_for_termination (channels s ! c) then
                  map_option (\<lambda>s2. (True, Some s2))
                    (mrcp_server_session_subrequest_remove e
                       (channel_write c (\<lambda>ch. ch\<lparr> waiting_for_termination := False \<rparr>) s))
                else Some (True, Some s)
            | None \<Rightarrow> Some (True, Some s)) = Some (r, Some s')"
  shows "shape e s s'"
proof (cases "mrcp_server_channel_termination_find s x")
  case None
  with assms show ?thesis by (simp add: shape_def)
next
  case (Some c)
  show ?thesis
  proof (cases "waiting_for_termination (channels s ! c)")
    case False
    with assms Some show ?thesis by (simp add: shape_def)
  next
    case True
    with assms Some have "mrcp_server_session_subrequest_remove e
        (channel_write c (\<lambda>ch. ch\<lparr> waiting_for_termination := False \<rparr>) s) = Some s'"
      by auto
    with calm_channel_write [OF calm_refl] show ?thesis by (rule shape_remove)
  qed
qed

lemma shape_on_termination_modify:
  assumes "mrcp_server_on_termination_modify e (Some s) m = Some (r, Some s')"
  shows "shape e s s'"
proof (cases "mrcp_server_rtp_termination_find s (m_termination m)")
  case None
  with assms show ?thesis
    by (intro shape_termination_tail [where s = s and x = "m_termination m" and e = e and r = r])
       (simp add: mrcp_server_on_termination_modify_def)
next
  case (Some i)
  show ?thesis
  proof (cases "waiting (s_terminations s ! i)")
    case False
    with assms Some show ?thesis
      by (simp add: mrcp_server_on_termination_modify_def shape_def)
  next
    case True
    define s1 where "s1 = termination_slot_write i (\<lambda>sl. sl\<lparr> waiting := False \<rparr>) s"
    from assms Some True obtain d s2 where
      d: "m_descriptor m = Some d"
      and 2: "(case audio_local d of
                 None \<Rightarrow> Some s1
               | Some local \<Rightarrow>
                   answer_write
                     (\<lambda>a. mrcp_session_audio_media_set
                             (a\<lparr> ip := md_ip local, ext_ip := md_ext_ip local \<rparr>)
                             (slot_id (s_terminations s1 ! i)) local) s1) = Some s2"
      and 3: "mrcp_server_session_subrequest_remove e s2 = Some s'"
      by (auto simp: mrcp_server_on_termination_modify_def s1_def Let_def
               split: option.splits)
    have "calm s s1" unfolding s1_def by (rule calm_slot_write [OF calm_refl])
    with 2 have "calm s s2"
      by (cases "audio_local d") (auto elim: calm_answer_write)
    then show ?thesis using 3 by (rule shape_remove)
  qed
qed

lemma shape_on_termination_subtract:
  assumes "mrcp_server_on_termination_subtract e (Some s) m = Some (r, Some s')"
  shows "shape e s s'"
proof (cases "mrcp_server_rtp_termination_find s (m_termination m)")
  case None
  with assms show ?thesis
    by (intro shape_termination_tail [where s = s and x = "m_termination m" and e = e and r = r])
       (simp add: mrcp_server_on_termination_subtract_def)
next
  case (Some i)
  show ?thesis
  proof (cases "waiting (s_terminations s ! i)")
    case False
    with assms Some show ?thesis
      by (simp add: mrcp_server_on_termination_subtract_def shape_def)
  next
    case True
    with assms Some have "mrcp_server_session_subrequest_remove e
        (termination_slot_write i (\<lambda>sl. sl\<lparr> waiting := False \<rparr>) s) = Some s'"
      by (auto simp: mrcp_server_on_termination_subtract_def)
    with calm_slot_write [OF calm_refl] show ?thesis by (rule shape_remove)
  qed
qed

lemma termination_handlers_session:
  "mrcp_server_on_termination_modify e None m = Some (False, None)"
  "mrcp_server_on_termination_subtract e None m = Some (False, None)"
  "mrcp_server_on_termination_modify e (Some s) m \<noteq> Some (r, None)"
  "mrcp_server_on_termination_subtract e (Some s) m \<noteq> Some (r, None)"
  by (auto simp: mrcp_server_on_termination_modify_def mrcp_server_on_termination_subtract_def
        Let_def split: option.splits if_splits)

lemma shape_mpf_message_process_one:
  assumes "mpf_message_process_one e m s = Some s'"
  shows "shape e s s'"
proof (cases "mpf_message_type m")
  case MPF_MESSAGE_TYPE_EVENT
  with assms show ?thesis by (simp add: mpf_message_process_one_def shape_def)
next
  case MPF_MESSAGE_TYPE_RESPONSE
  show ?thesis
  proof (cases "has_context m")
    case False
    with assms MPF_MESSAGE_TYPE_RESPONSE show ?thesis
      by (auto simp: mpf_message_process_one_def termination_handlers_session shape_def
               split: if_splits)
  next
    case True
    consider (modify) "command_id m = MPF_ADD_TERMINATION \<or> command_id m = MPF_MODIFY_TERMINATION"
      | (subtract) "command_id m = MPF_SUBTRACT_TERMINATION"
      | (other) "command_id m \<noteq> MPF_ADD_TERMINATION" "command_id m \<noteq> MPF_MODIFY_TERMINATION"
          "command_id m \<noteq> MPF_SUBTRACT_TERMINATION"
      by blast
    then show ?thesis
    proof cases
      case modify
      with assms MPF_MESSAGE_TYPE_RESPONSE True obtain r x where
        h: "mrcp_server_on_termination_modify e (Some s) m = Some (r, x)"
        and x: "(case x of None \<Rightarrow> Some s | Some t \<Rightarrow> Some t) = Some s'"
        by (auto simp: mpf_message_process_one_def split: option.splits)
      from termination_handlers_session(3) [of e s m r] h x have "x = Some s'"
        by (cases x) auto
      with h show ?thesis by (auto intro: shape_on_termination_modify)
    next
      case subtract
      with assms MPF_MESSAGE_TYPE_RESPONSE True obtain r x where
        h: "mrcp_server_on_termination_subtract e (Some s) m = Some (r, x)"
        and x: "(case x of None \<Rightarrow> Some s | Some t \<Rightarrow> Some t) = Some s'"
        by (auto simp: mpf_message_process_one_def split: option.splits)
      from termination_handlers_session(4) [of e s m r] h x have "x = Some s'"
        by (cases x) auto
      with h show ?thesis by (auto intro: shape_on_termination_subtract)
    next
      case other
      with assms MPF_MESSAGE_TYPE_RESPONSE True
      have "mrcp_server_session_subrequest_remove e s = Some s'"
        by (simp add: mpf_message_process_one_def)
      with calm_refl show ?thesis by (rule shape_remove)
    qed
  qed
qed

lemma shape_step:
  assumes "step e ev s = Some s'" "\<not> arrival ev" "\<not> response_callback ev"
  shows "shape e s s'"
proof (cases ev)
  case (Signaling m)
  with assms(2) show ?thesis by (simp add: arrival_def)
next
  case (Channel_modify c a)
  with assms(1) show ?thesis by (auto intro: shape_on_channel_modify)
next
  case (Channel_remove c)
  with assms(1) show ?thesis by (auto intro: shape_on_channel_remove)
next
  case (Channel_message c m)
  with assms(2) show ?thesis by (simp add: arrival_def)
next
  case (Disconnect c)
  with assms(1) show ?thesis by (auto simp: mrcp_server_on_disconnect_def shape_def)
next
  case (Engine_channel_opened c b)
  with assms(1) show ?thesis by (auto intro: shape_on_engine_channel_open)
next
  case (Engine_channel_closed c)
  with assms(1) show ?thesis
    by (auto simp: mrcp_server_on_engine_channel_close_def intro: shape_remove [OF calm_refl])
next
  case (Engine_channel_message c m)
  with assms(1) have "s' = snd (mrcp_server_on_engine_channel_message e c m s)" by simp
  then show ?thesis
    by (auto simp: mrcp_server_on_engine_channel_message_def silent_def
             intro!: shape_calm calm_steps)
next
  case (Mpf_response m)
  with assms(1) show ?thesis by (auto intro: shape_mpf_message_process_one)
next
  case (State_machine_dispatch c m)
  with assms(3) have nr: "message_type m \<noteq> MRCP_MESSAGE_TYPE_RESPONSE"
    by (simp add: response_callback_def)
  with assms(1) State_machine_dispatch show ?thesis
    by (cases "message_type m")
       (auto simp: state_machine_on_message_dispatch_def silent_def Let_def
             intro!: shape_calm calm_steps)
next
  case (State_machine_deactivated c)
  with assms(1) show ?thesis
    by (auto simp: state_machine_on_deactivate_def intro: shape_remove [OF calm_refl])
qed

lemma shape_paced: "shape e s s' \<Longrightarrow> paced s s'"
  by (auto simp: shape_def intro: calm_paced paced_trans paced_subrequest_remove)

lemma paced_response_dispatch:
  assumes "state_machine_on_message_dispatch e c m s = Some s'"
    and "message_type m = MRCP_MESSAGE_TYPE_RESPONSE"
  shows "paced s s'"
proof -
  define a where "a = (if control_channel (channels s ! c) \<noteq> None
                       then Control_message_send c m else Session_control_response m)"
  define s1 where "s1 = emit a s"
  have ca: "completion a" using assms(2) by (simp add: a_def completion_def)
  have eq: "state_machine_on_message_dispatch e c m s =
      (case request_queue s of
         [] \<Rightarrow> Some (s1\<lparr> active_request := None \<rparr>)
       | x # q \<Rightarrow>
           mrcp_server_signaling_message_dispatch e x
             (s1\<lparr> active_request := Some x, request_queue := q \<rparr>))"
    using assms(2)
    by (cases "control_channel (channels s ! c)")
       (simp_all add: state_machine_on_message_dispatch_def s1_def a_def Let_def emit_def
          split: list.splits)
  show ?thesis
  proof (cases "request_queue s")
    case Nil
    with assms(1) eq have s': "s' = s1\<lparr> active_request := None \<rparr>" by simp
    show ?thesis
      by (rule paced_complete [OF ca])
         (use Nil in \<open>simp_all add: s' s1_def emit_def line_def pop_def\<close>)
  next
    case (Cons x q)
    define t where "t = s1\<lparr> active_request := Some x, request_queue := q \<rparr>"
    from assms(1) eq Cons have "mrcp_server_signaling_message_dispatch e x t = Some s'"
      by (simp add: t_def)
    then have "paced t s'" by (rule paced_answer_send_dispatch_offer_process(2))
    moreover have "paced s t"
      by (rule paced_complete [OF ca])
         (use Cons in \<open>simp_all add: t_def s1_def emit_def line_def pop_def\<close>)
    ultimately show ?thesis by (rule paced_trans [rotated])
  qed
qed

lemma paced_step:
  assumes "step e ev s = Some s'" "\<not> arrival ev"
  shows "paced s s'"
proof (cases "response_callback ev")
  case False
  with assms show ?thesis by (auto intro: shape_paced shape_step)
next
  case True
  then obtain c m where "ev = State_machine_dispatch c m"
    "message_type m = MRCP_MESSAGE_TYPE_RESPONSE"
    by (cases ev) (simp_all add: response_callback_def)
  with assms(1) show ?thesis by (auto intro: paced_response_dispatch)
qed

lemma signaling_message_process_queue:
  "active_request s \<noteq> None \<Longrightarrow>
   mrcp_server_signaling_message_process e m s =
     Some (s\<lparr> request_queue := request_queue s @ [m] \<rparr>)"
  by (simp add: mrcp_server_signaling_message_process_def)

lemma signaling_message_process_paced:
  "active_request s = None \<Longrightarrow> mrcp_server_signaling_message_process e m s = Some s' \<Longrightarrow>
   paced (s\<lparr> active_request := Some m \<rparr>) s'"
  by (auto simp: mrcp_server_signaling_message_process_def
           intro: paced_answer_send_dispatch_offer_process(2))

lemma arrival_process:
  "arrival ev \<Longrightarrow> \<exists>m. \<forall>e s. step e ev s = mrcp_server_signaling_message_process e m s"
  by (cases ev) (auto simp: arrival_def mrcp_server_on_channel_message_def)

lemma step_ext:
  assumes "step e ev s = Some s'"
  shows "\<exists>tr. out s' = out s @ tr"
proof (cases "arrival ev")
  case False
  with assms show ?thesis by (auto dest: paced_step paced_ext)
next
  case True
  from arrival_process [OF this] obtain m where
    m: "\<And>e s. step e ev s = mrcp_server_signaling_message_process e m s"
    by blast
  show ?thesis
  proof (cases "active_request s")
    case None
    with assms m have "paced (s\<lparr> active_request := Some m \<rparr>) s'"
      by (auto intro: signaling_message_process_paced)
    from paced_ext [OF this] show ?thesis by simp
  next
    case (Some a)
    with assms m have "out s' = out s @ []"
      by (auto simp: signaling_message_process_queue)
    then show ?thesis by blast
  qed
qed

lemma run_ext: "run e evs s = Some s' \<Longrightarrow> \<exists>tr. out s' = out s @ tr"
proof (induction evs arbitrary: s)
  case Nil
  then show ?case by (simp add: run_def)
next
  case (Cons ev evs)
  from Cons.prems obtain u where u: "step e ev s = Some u" "run e evs u = Some s'"
    by (auto simp: run_def split: option.splits)
  from step_ext [OF u(1)] Cons.IH [OF u(2)] show ?case by auto
qed

text \<open>
  While the offer waits: the active message and the state are what they were, the queue
  has only grown at its end, and what was done is silent. Or the offer was answered: what
  was done begins with silent actions and the answer.
\<close>

definition waits :: "mrcp_server_session \<Rightarrow> mrcp_server_session \<Rightarrow> bool" where
  "waits s s' =
     (active_request s' = active_request s \<and> state s' = state s \<and>
      (\<exists>more. request_queue s' = request_queue s @ more) \<and>
      (\<exists>tr. out s' = out s @ tr \<and> list_all silent tr))"

definition answered_after :: "mrcp_server_session \<Rightarrow> mrcp_server_session \<Rightarrow> bool" where
  "answered_after s s' =
     (\<exists>tr1 a tr2. out s' = out s @ tr1 @ Session_answer a # tr2 \<and> list_all silent tr1)"

lemma waits_refl [simp]: "waits s s"
  by (simp add: waits_def)

lemma calm_waits: "calm s s' \<Longrightarrow> waits s s'"
  by (auto simp: calm_def steady_def waits_def)

lemma waits_trans: "waits s s' \<Longrightarrow> waits s' s'' \<Longrightarrow> waits s s''"
  by (auto simp: waits_def)

lemma waits_answered:
  assumes "waits s t" "answered_after t s'"
  shows "answered_after s s'"
proof -
  from assms(1) obtain tr0 where 0: "out t = out s @ tr0" "list_all silent tr0"
    by (auto simp: waits_def)
  from assms(2) obtain tr1 a tr2 where 1: "out s' = out t @ tr1 @ Session_answer a # tr2"
    "list_all silent tr1"
    by (auto simp: answered_after_def)
  from 0 1 have "out s' = out s @ (tr0 @ tr1) @ Session_answer a # tr2"
    "list_all silent (tr0 @ tr1)"
    by simp_all
  then show ?thesis unfolding answered_after_def by blast
qed

lemma answered_ext:
  assumes "answered_after s t" "out s' = out t @ tr"
  shows "answered_after s s'"
proof -
  from assms(1) obtain tr1 a tr2 where 1: "out t = out s @ tr1 @ Session_answer a # tr2"
    "list_all silent tr1"
    by (auto simp: answered_after_def)
  with assms(2) have "out s' = out s @ tr1 @ Session_answer a # (tr2 @ tr)" by simp
  with 1(2) show ?thesis unfolding answered_after_def by blast
qed

lemma shape_answering:
  assumes "shape e s s'" "state s = SESSION_STATE_ANSWERING"
  shows "waits s s' \<or> answered_after s s'"
proof -
  from assms(1) consider "calm s s'"
    | t where "calm s t" "mrcp_server_session_subrequest_remove e t = Some s'"
    by (auto simp: shape_def)
  then show ?thesis
  proof cases
    case 1
    then show ?thesis by (simp add: calm_waits)
  next
    case 2
    from 2(1) assms(2) have st: "state t = SESSION_STATE_ANSWERING"
      by (simp add: calm_def)
    from subrequest_remove_answering [OF 2(2) st] show ?thesis
    proof
      assume "calm t s'"
      with 2(1) have "calm s s'" by (rule calm_trans)
      then show ?thesis by (simp add: calm_waits)
    next
      assume "answered t s'"
      then obtain a tr where "out s' = out t @ [] @ Session_answer a # tr"
        by (auto simp: answered_def)
      moreover have "list_all silent []" by simp
      ultimately have "answered_after t s'"
        unfolding answered_after_def by blast
      with calm_waits [OF 2(1)] show ?thesis by (auto intro: waits_answered)
    qed
  qed
qed

lemma step_answering:
  assumes "step e ev s = Some s'" "state s = SESSION_STATE_ANSWERING"
    "active_request s \<noteq> None" "\<not> response_callback ev"
  shows "waits s s' \<or> answered_after s s'"
proof (cases "arrival ev")
  case False
  from shape_answering [OF shape_step [OF assms(1) False assms(4)] assms(2)]
  show ?thesis .
next
  case True
  from arrival_process [OF this] obtain m where
    m: "\<And>e s. step e ev s = mrcp_server_signaling_message_process e m s"
    by blast
  with assms(1,3) have "s' = s\<lparr> request_queue := request_queue s @ [m] \<rparr>"
    by (simp add: signaling_message_process_queue)
  then show ?thesis by (simp add: waits_def)
qed

lemma run_answering:
  assumes "run e evs s = Some s'" "state s = SESSION_STATE_ANSWERING"
    "active_request s \<noteq> None" "list_all (\<lambda>ev. \<not> response_callback ev) evs"
  shows "waits s s' \<or> answered_after s s'"
  using assms
proof (induction evs arbitrary: s)
  case Nil
  then show ?case by (simp add: run_def)
next
  case (Cons ev evs)
  from Cons.prems(1) obtain u where u: "step e ev s = Some u" "run e evs u = Some s'"
    by (auto simp: run_def split: option.splits)
  from Cons.prems(4) have nr: "\<not> response_callback ev"
    "list_all (\<lambda>ev. \<not> response_callback ev) evs"
    by simp_all
  from step_answering [OF u(1) Cons.prems(2,3) nr(1)] show ?case
  proof
    assume w: "waits s u"
    then have "state u = SESSION_STATE_ANSWERING" "active_request u \<noteq> None"
      using Cons.prems(2,3) by (simp_all add: waits_def)
    from Cons.IH [OF u(2) this nr(2)] w show ?thesis
      by (auto intro: waits_trans waits_answered)
  next
    assume a: "answered_after s u"
    from run_ext [OF u(2)] obtain tr where "out s' = out u @ tr" by blast
    with a have "answered_after s s'" by (rule answered_ext)
    then show ?thesis by simp
  qed
qed

lemma answer_first_silent:
  "list_all silent tr \<Longrightarrow> answer_first (tr @ rest) = answer_first rest"
  by (induction tr) (simp_all add: answer_first_def)

lemma answer_first_news:
  assumes "waits s s' \<or> answered_after s s'"
  shows "take (length (out s)) (out s') = out s \<and> answer_first (news s s')"
  using assms
proof
  assume "waits s s'"
  then obtain tr where tr: "out s' = out s @ tr" "list_all silent tr"
    by (auto simp: waits_def)
  have "answer_first (tr @ [])"
    unfolding answer_first_silent [OF tr(2)] by (simp add: answer_first_def)
  with tr(1) show ?thesis
    by (simp add: news_def)
next
  assume "answered_after s s'"
  then obtain tr1 a tr2 where tr: "out s' = out s @ tr1 @ Session_answer a # tr2"
    "list_all silent tr1"
    by (auto simp: answered_after_def)
  have "answer_first (tr1 @ Session_answer a # tr2)"
    unfolding answer_first_silent [OF tr(2)] by (simp add: answer_first_def silent_def)
  with tr(1) show ?thesis
    by (simp add: news_def)
qed

text \<open>
  C2, as the code has it. One message is active at a time, the others wait in a queue in
  the order of their arrival: a signaling message that arrives while a message is active is
  put at the end of the queue and nothing else is done; one that arrives while no message
  is active becomes the active message and is dispatched. Whatever happens to the session
  afterwards, and while such a message is dispatched, the line is popped exactly once for
  every completing action done, an answer or a response to the client, so the head of the
  queue is dispatched only after the active message has completed. And when an offer is in
  flight, then after any events among which no state machine dispatches a response, the
  first of the actions done that is an answer, a terminate response or a response to the
  client is the answer to the offer, if there is one: a TERMINATE that arrived in between is
  answered after it.
\<close>

theorem one_active_message_and_a_queue:
  "(active_request s \<noteq> None \<longrightarrow>
      mrcp_server_signaling_message_process e m s =
        Some (s\<lparr> request_queue := request_queue s @ [m] \<rparr>)) \<and>
   (active_request s = None \<longrightarrow> mrcp_server_signaling_message_process e m s = Some s' \<longrightarrow>
      paced (s\<lparr> active_request := Some m \<rparr>) s') \<and>
   (\<not> arrival ev \<longrightarrow> step e ev s = Some s' \<longrightarrow> paced s s') \<and>
   (state s = SESSION_STATE_ANSWERING \<longrightarrow> active_request s = Some (SIGNALING_MESSAGE_OFFER d) \<longrightarrow>
    list_all (\<lambda>ev. \<not> response_callback ev) evs \<longrightarrow> run e evs s = Some s'' \<longrightarrow>
      take (length (out s)) (out s'') = out s \<and> answer_first (news s s''))"
proof -
  have "state s = SESSION_STATE_ANSWERING \<longrightarrow>
      active_request s = Some (SIGNALING_MESSAGE_OFFER d) \<longrightarrow>
      list_all (\<lambda>ev. \<not> response_callback ev) evs \<longrightarrow> run e evs s = Some s'' \<longrightarrow>
      take (length (out s)) (out s'') = out s \<and> answer_first (news s s'')"
  proof (intro impI)
    assume a: "state s = SESSION_STATE_ANSWERING"
      "active_request s = Some (SIGNALING_MESSAGE_OFFER d)"
      "list_all (\<lambda>ev. \<not> response_callback ev) evs" "run e evs s = Some s''"
    from a(2) have "active_request s \<noteq> None" by simp
    from answer_first_news [OF run_answering [OF a(4) a(1) this a(3)]]
    show "take (length (out s)) (out s'') = out s \<and> answer_first (news s s'')" .
  qed
  then show ?thesis
    using signaling_message_process_queue [of s e m]
      signaling_message_process_paced [of s e m s'] paced_step [of e ev s s']
    by blast
qed


text \<open>The definitions of the session, for running it on given events.\<close>

lemmas session_eval =
  emit_def call_def mpf_engine_message_add_def mpf_engine_message_send_def
  mrcp_session_control_media_get_def mrcp_session_control_media_set_def
  mrcp_session_audio_media_get_def mrcp_session_audio_media_set_def
  mrcp_server_session_create_def mrcp_server_session_state_set_def
  mrcp_server_session_subrequest_add_def channel_write_def termination_slot_write_def
  mrcp_server_rtp_termination_find_def mrcp_server_channel_termination_find_def
  mrcp_server_channel_find_def terminate_send_channel_def
  mrcp_server_session_terminate_send_def terminate_process_channel_def
  terminate_process_slot_def mrcp_server_session_terminate_process_def
  deactivate_channel_def mrcp_server_session_deactivate_def
  mrcp_server_on_message_receive_def answer_write_def mrcp_session_answer_create_def
  mrcp_server_engine_channel_create_def mrcp_server_channel_create_def
  engine_channel_open_def mrcp_server_resource_offer_process_def control_answer_set_def
  control_media_modify_def control_media_add_def
  mrcp_server_control_media_offer_process_def mrcp_server_associations_build_def
  association_set_def mrcp_server_associations_set_def termination_offer_def
  av_media_modify_def av_media_add_def mrcp_server_av_media_offer_process_def
  offer_begin_def offer_media_def offer_body_def
  mrcp_server_session_answer_send.simps mrcp_server_signaling_message_dispatch.simps
  mrcp_server_session_offer_process.simps mrcp_server_session_subrequest_remove_def
  mrcp_server_signaling_message_process_def mrcp_server_on_channel_modify_def
  mrcp_server_on_channel_remove_def mrcp_server_on_channel_message_def
  mrcp_server_on_engine_channel_open_def mrcp_server_on_engine_channel_close_def
  mrcp_server_on_engine_channel_message_def mrcp_server_on_termination_modify_def
  mrcp_server_on_termination_subtract_def mpf_message_process_one_def
  state_machine_on_message_dispatch_def state_machine_on_deactivate_def
  mrcp_server_on_disconnect_def run_def size_inc_def size_dec_def Let_def

text \<open>
  An MRCPv1 session is offered the synthesizer: the offer is in flight, four sub-requests
  are to complete before its answer is sent.
\<close>

definition offer_synth :: mrcp_session_descriptor where
  "offer_synth = offer_empty\<lparr> resource_name := Some ''speechsynth'', resource_state := True \<rparr>"

definition offer_in_flight :: mrcp_server_session where
  "offer_in_flight =
     the (run env_ok [Signaling (SIGNALING_MESSAGE_OFFER offer_synth)] fresh_v1)"

definition response_message :: mrcp_message where
  "response_message =
     \<lparr> message_type = MRCP_MESSAGE_TYPE_RESPONSE,
       channel_resource_name = Some ''speechsynth'', request_id = 1 \<rparr>"

definition topology_response :: "mpf_command \<Rightarrow> mpf_message" where
  "topology_response c =
     \<lparr> mpf_message_type = MPF_MESSAGE_TYPE_RESPONSE, command_id = c, has_context = True,
       m_termination = None, m_descriptor = None \<rparr>"

text \<open>
  A TERMINATE arrives, then the four sub-requests of the offer complete, then the three of
  the termination.
\<close>

definition terminate_in_between :: "event list" where
  "terminate_in_between =
     [Signaling SIGNALING_MESSAGE_TERMINATE,
      Engine_channel_opened 0 True,
      Mpf_response (topology_response MPF_RESET_ASSOCIATIONS),
      Mpf_response (response_for MPF_ADD_TERMINATION 7),
      Mpf_response (topology_response MPF_APPLY_TOPOLOGY),
      State_machine_deactivated 0,
      Mpf_response (topology_response MPF_RESET_ASSOCIATIONS),
      Mpf_response (response_for MPF_SUBTRACT_TERMINATION 7),
      Engine_channel_closed 0]"

lemmas scenario_eval =
  offer_in_flight_def offer_synth_def offer_empty_def fresh_v1_def env_ok_def
  response_message_def topology_response_def response_for_def terminate_in_between_def

theorem one_active_message_and_a_queue_witness:
  "state offer_in_flight = SESSION_STATE_ANSWERING \<and>
   active_request offer_in_flight = Some (SIGNALING_MESSAGE_OFFER offer_synth) \<and>
   list_all (\<lambda>ev. \<not> response_callback ev) terminate_in_between \<and>
   mrcp_server_signaling_message_process env_ok SIGNALING_MESSAGE_TERMINATE offer_in_flight =
     Some (offer_in_flight\<lparr> request_queue := [SIGNALING_MESSAGE_TERMINATE] \<rparr>) \<and>
   (\<exists>s''. run env_ok terminate_in_between offer_in_flight = Some s'' \<and>
          answer_first (news offer_in_flight s'') \<and>
          news offer_in_flight s'' =
            [Session_answer (mrcp_session_answer_create offer_synth),
             State_machine_deactivate 0, Engine_channel_close 0,
             Mpf_message_send
               [Topology_request MPF_RESET_ASSOCIATIONS,
                Termination_request MPF_SUBTRACT_TERMINATION (Some 7) None],
             Session_remove, Engine_channel_destroy 0, Session_terminate_response])"
proof -
  have st: "state offer_in_flight = SESSION_STATE_ANSWERING"
    by (simp add: session_eval scenario_eval)
  have ac: "active_request offer_in_flight = Some (SIGNALING_MESSAGE_OFFER offer_synth)"
    by (simp add: session_eval scenario_eval)
  have q: "request_queue offer_in_flight = []"
    by (simp add: session_eval scenario_eval)
  have nr: "list_all (\<lambda>ev. \<not> response_callback ev) terminate_in_between"
    by (simp add: terminate_in_between_def response_callback_def)
  have "\<exists>s''. run env_ok terminate_in_between offer_in_flight = Some s'' \<and>
          news offer_in_flight s'' =
            [Session_answer (mrcp_session_answer_create offer_synth),
             State_machine_deactivate 0, Engine_channel_close 0,
             Mpf_message_send
               [Topology_request MPF_RESET_ASSOCIATIONS,
                Termination_request MPF_SUBTRACT_TERMINATION (Some 7) None],
             Session_remove, Engine_channel_destroy 0, Session_terminate_response]"
    by (simp add: session_eval scenario_eval news_def)
  then obtain s'' where r: "run env_ok terminate_in_between offer_in_flight = Some s''"
    and o: "news offer_in_flight s'' =
            [Session_answer (mrcp_session_answer_create offer_synth),
             State_machine_deactivate 0, Engine_channel_close 0,
             Mpf_message_send
               [Topology_request MPF_RESET_ASSOCIATIONS,
                Termination_request MPF_SUBTRACT_TERMINATION (Some 7) None],
             Session_remove, Engine_channel_destroy 0, Session_terminate_response]"
    by blast
  from one_active_message_and_a_queue
         [of offer_in_flight env_ok SIGNALING_MESSAGE_TERMINATE offer_in_flight "Disconnect 0"
             offer_synth terminate_in_between s'']
       st ac nr r
  have "mrcp_server_signaling_message_process env_ok SIGNALING_MESSAGE_TERMINATE
          offer_in_flight =
        Some (offer_in_flight\<lparr> request_queue := request_queue offer_in_flight @
                                                  [SIGNALING_MESSAGE_TERMINATE] \<rparr>)"
    and "answer_first (news offer_in_flight s'')"
    by simp_all
  with st ac nr r o q show ?thesis by simp
qed

text \<open>
  The hypothesis on the events is needed. A TERMINATE arrives while the offer is in flight,
  then the state machine of the channel dispatches a response. The response is sent to the
  client, the TERMINATE is taken from the queue and dispatched, and when its three
  sub-requests have completed the terminate response is sent: the offer was never answered.
\<close>

definition response_in_between :: "event list" where
  "response_in_between =
     [Signaling SIGNALING_MESSAGE_TERMINATE,
      State_machine_dispatch 0 response_message,
      State_machine_deactivated 0,
      Mpf_response (topology_response MPF_RESET_ASSOCIATIONS),
      Mpf_response (response_for MPF_SUBTRACT_TERMINATION 7),
      Engine_channel_closed 0]"

theorem one_active_message_and_a_queue_counterexample:
  "state offer_in_flight = SESSION_STATE_ANSWERING \<and>
   active_request offer_in_flight = Some (SIGNALING_MESSAGE_OFFER offer_synth) \<and>
   map_option (news offer_in_flight) (run env_ok response_in_between offer_in_flight) =
     Some [Session_control_response response_message,
           State_machine_deactivate 0, Engine_channel_close 0,
           Mpf_message_send
             [Topology_request MPF_RESET_ASSOCIATIONS,
              Termination_request MPF_SUBTRACT_TERMINATION (Some 7) None],
           Session_remove, Engine_channel_destroy 0, Session_terminate_response] \<and>
   map_option (\<lambda>s. answer_first (news offer_in_flight s))
     (run env_ok response_in_between offer_in_flight) = Some False"
  by (simp add: session_eval scenario_eval response_in_between_def news_def answer_first_def
        silent_def)


end
